theory Spec2Isabelle
  imports Complex_Main "HOL-Library.Log_Nat"
begin

section \<open>The arithmetic of the C++ type float\<close>

text \<open>
  Every coordinate, size, zoom factor and radius of TheGreatWar.cpp is a C++ \<open>float\<close>.
  It is modelled as an IEEE-754 binary32 number under the default rounding mode (round to
  nearest, ties to even), every operation rounded once to binary32, as a C++ compiler
  computes it on the usual platforms (no excess precision, no fused multiply-add).

  A value is a signed zero or finite number \<open>Finite s m e\<close>, of value
  \<open>(-1)^s * m * 2^e\<close>, an infinity \<open>Infinity s\<close> or \<open>NaN\<close>
  (\<open>s\<close> is the sign bit, set for negative values). The numbers the operations produce
  are in the canonical form of the format: \<open>m < 2^24\<close>,
  \<open>-149 \<le> e \<le> 104\<close>, and \<open>2^23 \<le> m\<close> unless \<open>e = -149\<close>
  (the subnormal numbers and the zeros).
\<close>

datatype f32 = Finite bool nat int | Infinity bool | NaN

definition pow2 :: "int \<Rightarrow> real" where
  "pow2 e = (if 0 \<le> e then 2 ^ nat e else 1 / 2 ^ nat (- e))"

fun valof :: "f32 \<Rightarrow> real" where
  "valof (Finite s m e) = (if s then - 1 else 1) * real m * pow2 e"
| "valof (Infinity s) = 0"
| "valof NaN = 0"

text \<open>Rounding a real to the nearest integer, ties to the even one.\<close>

definition rne :: "real \<Rightarrow> int" where
  "rne q = (if q - of_int \<lfloor>q\<rfloor> < 1 / 2 then \<lfloor>q\<rfloor>
            else if 1 / 2 < q - of_int \<lfloor>q\<rfloor> then \<lfloor>q\<rfloor> + 1
            else if even \<lfloor>q\<rfloor> then \<lfloor>q\<rfloor> else \<lfloor>q\<rfloor> + 1)"

text \<open>
  \<open>f32_round s r\<close> is the binary32 number nearest to the real \<open>r\<close>; \<open>s\<close> is the sign
  of the result when \<open>r\<close> is zero. The magnitude is scaled to units of the smallest subnormal
  number, \<open>2^(-149)\<close>; \<open>k\<close> is the exponent, above \<open>-149\<close>, of the
  unit in the last place that leaves a 24-bit significand; the significand is rounded to the
  nearest integer, ties to even; a significand rounded up to \<open>2^24\<close> moves to
  the next exponent, and an exponent above \<open>104\<close> overflows to infinity.
\<close>

definition f32_pack :: "bool \<Rightarrow> int \<Rightarrow> int \<Rightarrow> f32" where
  "f32_pack sg k m =
     (if m = 2 ^ 24 then (if 253 < k + 1 then Infinity sg else Finite sg (2 ^ 23) (k + 1 - 149))
      else if 253 < k then Infinity sg else Finite sg (nat m) (k - 149))"

definition f32_round_at :: "bool \<Rightarrow> real \<Rightarrow> int \<Rightarrow> f32" where
  "f32_round_at sg a k = f32_pack sg k (rne (a / 2 ^ nat k))"

definition f32_round_scaled :: "bool \<Rightarrow> real \<Rightarrow> f32" where
  "f32_round_scaled sg a = f32_round_at sg a (max 0 (bitlen \<lfloor>a\<rfloor> - 24))"

definition f32_round :: "bool \<Rightarrow> real \<Rightarrow> f32" where
  "f32_round s r =
     (if r = 0 then Finite s 0 (- 149) else f32_round_scaled (r < 0) (\<bar>r\<bar> * 2 ^ 149))"

text \<open>
  The operations: the exact result of finite operands, rounded; the special values as
  IEEE-754 prescribes. An exact zero sum is \<open>-0\<close> only when both operands are negative
  zeros. Subtraction is the addition of the negated operand.
\<close>

definition fneg :: "f32 \<Rightarrow> f32" where
  "fneg x = (case x of Finite s m e \<Rightarrow> Finite (\<not> s) m e | Infinity s \<Rightarrow> Infinity (\<not> s) | NaN \<Rightarrow> NaN)"

fun fadd :: "f32 \<Rightarrow> f32 \<Rightarrow> f32" where
  "fadd NaN y = NaN"
| "fadd x NaN = NaN"
| "fadd (Infinity s) (Infinity t) = (if s = t then Infinity s else NaN)"
| "fadd (Infinity s) (Finite t n f) = Infinity s"
| "fadd (Finite s m e) (Infinity t) = Infinity t"
| "fadd (Finite s m e) (Finite t n f) =
     f32_round (s \<and> t) (valof (Finite s m e) + valof (Finite t n f))"

definition fsub :: "f32 \<Rightarrow> f32 \<Rightarrow> f32" where
  "fsub x y = fadd x (fneg y)"

fun fmul :: "f32 \<Rightarrow> f32 \<Rightarrow> f32" where
  "fmul NaN y = NaN"
| "fmul x NaN = NaN"
| "fmul (Infinity s) (Infinity t) = Infinity (s \<noteq> t)"
| "fmul (Infinity s) (Finite t n f) = (if n = 0 then NaN else Infinity (s \<noteq> t))"
| "fmul (Finite s m e) (Infinity t) = (if m = 0 then NaN else Infinity (s \<noteq> t))"
| "fmul (Finite s m e) (Finite t n f) =
     f32_round (s \<noteq> t) (valof (Finite s m e) * valof (Finite t n f))"

fun fdiv :: "f32 \<Rightarrow> f32 \<Rightarrow> f32" where
  "fdiv NaN y = NaN"
| "fdiv x NaN = NaN"
| "fdiv (Infinity s) (Infinity t) = NaN"
| "fdiv (Infinity s) (Finite t n f) = Infinity (s \<noteq> t)"
| "fdiv (Finite s m e) (Infinity t) = Finite (s \<noteq> t) 0 (- 149)"
| "fdiv (Finite s m e) (Finite t n f) =
     (if n = 0 then (if m = 0 then NaN else Infinity (s \<noteq> t))
      else f32_round (s \<noteq> t) (valof (Finite s m e) / valof (Finite t n f)))"

text \<open>The comparisons \<open><\<close> and \<open><=\<close>: false whenever an operand is NaN.\<close>

fun flt :: "f32 \<Rightarrow> f32 \<Rightarrow> bool" where
  "flt NaN y = False"
| "flt x NaN = False"
| "flt (Infinity s) (Infinity t) = (s \<and> \<not> t)"
| "flt (Infinity s) (Finite t n f) = s"
| "flt (Finite s m e) (Infinity t) = (\<not> t)"
| "flt (Finite s m e) (Finite t n f) = (valof (Finite s m e) < valof (Finite t n f))"

fun fle :: "f32 \<Rightarrow> f32 \<Rightarrow> bool" where
  "fle NaN y = False"
| "fle x NaN = False"
| "fle (Infinity s) (Infinity t) = (s \<or> \<not> t)"
| "fle (Infinity s) (Finite t n f) = s"
| "fle (Finite s m e) (Infinity t) = (\<not> t)"
| "fle (Finite s m e) (Finite t n f) = (valof (Finite s m e) \<le> valof (Finite t n f))"

text \<open>The conversion of an \<open>int\<close> to \<open>float\<close>, and a \<open>float\<close> literal.\<close>

definition f32_of_int :: "int \<Rightarrow> f32" where
  "f32_of_int n = f32_round False (of_int n)"

definition f32_lit :: "real \<Rightarrow> f32" where
  "f32_lit r = f32_round False r"

section \<open>SFML value types\<close>

text \<open>
  \<open>sf::FloatRect\<close> (fields left, top, width, height; \<open>top\<close> is \<open>top_r\<close>
  here) and \<open>sf::Vector2f\<close> (fields x, y, here \<open>vx\<close>, \<open>vy\<close>). The
  operators of \<open>sf::Vector2f\<close> work on each component.
\<close>

datatype FloatRect = FloatRect (left: f32) (top_r: f32) (width: f32) (height: f32)

datatype Vector2f = Vector2f (vx: f32) (vy: f32)

section \<open>Quadtree\<close>

text \<open>
  A node of the tree: its rectangle, its children (the vector of shared pointers; every
  child is allocated by \<open>subdivide\<close> and owned by one parent, so the tree is a value)
  and its depth. The one exception the program throws is \<open>std::invalid_argument\<close>.
\<close>

datatype error = invalid_argument string

datatype Quadtree = Quadtree (bounds: FloatRect) (children: "Quadtree list") (depth: int)

text \<open>The constructor: no children.\<close>

definition new_Quadtree :: "FloatRect \<Rightarrow> int \<Rightarrow> Quadtree" where
  "new_Quadtree rect initialDepth = Quadtree rect [] initialDepth"

definition calculateChildRect :: "Quadtree \<Rightarrow> int \<Rightarrow> error + FloatRect" where
  "calculateChildRect q childIndex =
    (let halfWidth = fdiv (width (bounds q)) (f32_lit 2);
         halfHeight = fdiv (height (bounds q)) (f32_lit 2)
     in if childIndex = 0 then
          Inr (FloatRect (left (bounds q)) (top_r (bounds q)) halfWidth halfHeight)
        else if childIndex = 1 then
          Inr (FloatRect (fadd (left (bounds q)) halfWidth) (top_r (bounds q)) halfWidth halfHeight)
        else if childIndex = 2 then
          Inr (FloatRect (left (bounds q)) (fadd (top_r (bounds q)) halfHeight) halfWidth halfHeight)
        else if childIndex = 3 then
          Inr (FloatRect (fadd (left (bounds q)) halfWidth) (fadd (top_r (bounds q)) halfHeight)
                 halfWidth halfHeight)
        else Inl (invalid_argument ''Invalid childIndex''))"

text \<open>
  \<open>subdivide\<close> returns at once when the node has children or its depth is not positive.
  Otherwise its loop, \<open>subdivide_loop i\<close> from index \<open>i\<close>, appends for each
  \<open>i < 4\<close> a new child with rectangle \<open>calculateChildRect i\<close> and depth
  \<open>depth - 1\<close>, subdivided in its turn. The depth is a C++ \<open>int\<close>; the only
  arithmetic on it is \<open>depth - 1\<close> for a positive depth, which cannot overflow.
\<close>

function subdivide :: "Quadtree \<Rightarrow> error + Quadtree"
  and subdivide_loop :: "int \<Rightarrow> Quadtree \<Rightarrow> error + Quadtree" where
  "subdivide q = (if children q \<noteq> [] \<or> depth q \<le> 0 then Inr q else subdivide_loop 0 q)"
| "subdivide_loop i q =
    (if i < 4 then
       (case calculateChildRect q i of
          Inl e \<Rightarrow> Inl e
        | Inr childRect \<Rightarrow>
            (case subdivide (new_Quadtree childRect (depth q - 1)) of
               Inl e \<Rightarrow> Inl e
             | Inr c \<Rightarrow>
                 subdivide_loop (i + 1) (Quadtree (bounds q) (children q @ [c]) (depth q))))
     else Inr q)"
  by pat_completeness auto
termination
  by (relation "measure (\<lambda>a. case a of
        Inl q \<Rightarrow> (if depth q \<le> 0 then 0 else 10 * nat (depth q) + 6)
      | Inr (i, q) \<Rightarrow> 10 * nat (depth q) + nat (4 - i) + 1)")
    (auto simp: new_Quadtree_def)


section \<open>Camera\<close>

record Camera =
  position :: Vector2f
  zoomFactor :: f32
  scrollSpeed :: f32

text \<open>\<open>std::max(a, b)\<close> is \<open>(a < b) ? b : a\<close>.\<close>

definition fmax :: "f32 \<Rightarrow> f32 \<Rightarrow> f32" where
  "fmax a b = (if flt a b then b else a)"

definition updateZoom :: "Camera \<Rightarrow> int \<Rightarrow> Camera" where
  "updateZoom c scrollDelta =
     c\<lparr>zoomFactor := fmax (f32_lit (1 / 10))
            (fadd (zoomFactor c) (fmul (f32_of_int scrollDelta) (f32_lit (5 / 100))))\<rparr>"

definition convertWorldToView :: "Camera \<Rightarrow> Vector2f \<Rightarrow> Vector2f" where
  "convertWorldToView c worldPos =
     Vector2f (fmul (fsub (vx worldPos) (vx (Camera.position c))) (zoomFactor c))
              (fmul (fsub (vy worldPos) (vy (Camera.position c))) (zoomFactor c))"

definition convertViewToWorld :: "Camera \<Rightarrow> Vector2f \<Rightarrow> Vector2f" where
  "convertViewToWorld c viewPos =
     Vector2f (fadd (fdiv (vx viewPos) (zoomFactor c)) (vx (Camera.position c)))
              (fadd (fdiv (vy viewPos) (zoomFactor c)) (vy (Camera.position c)))"

section \<open>Unit\<close>

record Unit =
  position :: Vector2f
  radius :: f32
  isSelected :: bool

definition new_Unit :: "Vector2f \<Rightarrow> f32 \<Rightarrow> Unit" where
  "new_Unit initialPosition r = \<lparr>position = initialPosition, radius = r, isSelected = False\<rparr>"

definition moveTo :: "Unit \<Rightarrow> Vector2f \<Rightarrow> Unit" where
  "moveTo u destination = u\<lparr>position := destination\<rparr>"

definition contains :: "Unit \<Rightarrow> Vector2f \<Rightarrow> bool" where
  "contains u point =
     (let dx = fsub (vx point) (fadd (vx (position u)) (radius u));
          dy = fsub (vy point) (fadd (vy (position u)) (radius u))
      in fle (fadd (fmul dx dx) (fmul dy dy)) (fmul (radius u) (radius u)))"


section \<open>Mouse-button dispatch of the frame loop\<close>

text \<open>
  The branch of \<open>main\<close> for \<open>sf::Event::MouseButtonPressed\<close>. The position of the
  mouse is a pair of ints, converted to floats.
\<close>

datatype Button = Left | Right | Middle | XButton1 | XButton2

definition onMouseButtonPressed :: "Button \<Rightarrow> int \<times> int \<Rightarrow> Unit \<Rightarrow> Unit" where
  "onMouseButtonPressed button mouse myUnit =
     (let mousePos = Vector2f (f32_of_int (fst mouse)) (f32_of_int (snd mouse))
      in if button = Left then
           (if contains myUnit mousePos
            then myUnit\<lparr>isSelected := \<not> isSelected myUnit\<rparr>
            else myUnit\<lparr>isSelected := False\<rparr>)
         else if button = Right \<and> isSelected myUnit then moveTo myUnit mousePos
         else myUnit)"

section \<open>Notions used to state the properties\<close>

text \<open>The C++ comparison \<open>==\<close>, and the finite values.\<close>

fun is_finite :: "f32 \<Rightarrow> bool" where
  "is_finite (Finite s m e) = True"
| "is_finite (Infinity s) = False"
| "is_finite NaN = False"

fun feq :: "f32 \<Rightarrow> f32 \<Rightarrow> bool" where
  "feq NaN y = False"
| "feq x NaN = False"
| "feq (Infinity s) (Infinity t) = (s = t)"
| "feq (Infinity s) (Finite t n f) = False"
| "feq (Finite s m e) (Infinity t) = False"
| "feq (Finite s m e) (Finite t n f) = (valof (Finite s m e) = valof (Finite t n f))"

text \<open>
  An operation is exact on two operands when they and its result are finite and the
  result is the real result: nothing was rounded, and nothing overflowed.
\<close>

definition exact_add :: "f32 \<Rightarrow> f32 \<Rightarrow> bool" where
  "exact_add a b \<longleftrightarrow>
     is_finite a \<and> is_finite b \<and> is_finite (fadd a b) \<and> valof (fadd a b) = valof a + valof b"

definition exact_sub :: "f32 \<Rightarrow> f32 \<Rightarrow> bool" where
  "exact_sub a b \<longleftrightarrow>
     is_finite a \<and> is_finite b \<and> is_finite (fsub a b) \<and> valof (fsub a b) = valof a - valof b"

definition exact_mul :: "f32 \<Rightarrow> f32 \<Rightarrow> bool" where
  "exact_mul a b \<longleftrightarrow>
     is_finite a \<and> is_finite b \<and> is_finite (fmul a b) \<and> valof (fmul a b) = valof a * valof b"

definition exact_div :: "f32 \<Rightarrow> f32 \<Rightarrow> bool" where
  "exact_div a b \<longleftrightarrow>
     is_finite a \<and> is_finite b \<and> valof b \<noteq> 0 \<and> is_finite (fdiv a b) \<and>
     valof (fdiv a b) = valof a / valof b"

text \<open>
  The points of the plane a rectangle covers (its left and top edges included, its right
  and bottom edges excluded, as \<open>sf::Rect::contains\<close> has it). Rectangles tile a parent
  when their points are all of the parent's and no point is in two of them.
\<close>

definition rect_pts :: "FloatRect \<Rightarrow> (real \<times> real) set" where
  "rect_pts r = {(px, py).
     valof (left r) \<le> px \<and> px < valof (left r) + valof (width r) \<and>
     valof (top_r r) \<le> py \<and> py < valof (top_r r) + valof (height r)}"

fun pairwise_disjoint :: "'a set list \<Rightarrow> bool" where
  "pairwise_disjoint [] = True"
| "pairwise_disjoint (A # As) = ((\<forall>B \<in> set As. A \<inter> B = {}) \<and> pairwise_disjoint As)"

definition tiles :: "FloatRect \<Rightarrow> FloatRect list \<Rightarrow> bool" where
  "tiles parent rs \<longleftrightarrow>
     (\<Union>r \<in> set rs. rect_pts r) = rect_pts parent \<and> pairwise_disjoint (map rect_pts rs)"

text \<open>The four operations of \<open>calculateChildRect\<close> are exact on a rectangle.\<close>

definition exact_split :: "FloatRect \<Rightarrow> bool" where
  "exact_split r \<longleftrightarrow>
     exact_div (width r) (f32_lit 2) \<and> exact_div (height r) (f32_lit 2) \<and>
     exact_add (left r) (fdiv (width r) (f32_lit 2)) \<and>
     exact_add (top_r r) (fdiv (height r) (f32_lit 2))"

text \<open>The number of nodes of a tree, and whether each of its leaves has depth 0.\<close>

fun countNodes :: "Quadtree \<Rightarrow> nat" where
  "countNodes (Quadtree b cs d) = Suc (sum_list (map countNodes cs))"

fun leavesAtDepth0 :: "Quadtree \<Rightarrow> bool" where
  "leavesAtDepth0 (Quadtree b cs d) = (if cs = [] then d = 0 else list_all leavesAtDepth0 cs)"

text \<open>
  The left-hand side of the comparison in \<open>contains\<close>, and the condition that every
  operation of \<open>contains\<close> is exact at a point.
\<close>

definition squaredDistance :: "Unit \<Rightarrow> Vector2f \<Rightarrow> f32" where
  "squaredDistance u point =
     (let dx = fsub (vx point) (fadd (vx (position u)) (radius u));
          dy = fsub (vy point) (fadd (vy (position u)) (radius u))
      in fadd (fmul dx dx) (fmul dy dy))"

definition exact_contains :: "Unit \<Rightarrow> Vector2f \<Rightarrow> bool" where
  "exact_contains u point \<longleftrightarrow>
     (let cx = fadd (vx (position u)) (radius u);
          cy = fadd (vy (position u)) (radius u);
          dx = fsub (vx point) cx;
          dy = fsub (vy point) cy
      in exact_add (vx (position u)) (radius u) \<and> exact_add (vy (position u)) (radius u) \<and>
         exact_sub (vx point) cx \<and> exact_sub (vy point) cy \<and>
         exact_mul dx dx \<and> exact_mul dy dy \<and> exact_add (fmul dx dx) (fmul dy dy) \<and>
         exact_mul (radius u) (radius u))"

text \<open>
  The four operations that take one coordinate \<open>w\<close> to view coordinates and back
  (camera coordinate \<open>pos\<close>, zoom factor \<open>z\<close>) are exact.
\<close>

definition exact_trip :: "f32 \<Rightarrow> f32 \<Rightarrow> f32 \<Rightarrow> bool" where
  "exact_trip pos z w \<longleftrightarrow>
     exact_sub w pos \<and> exact_mul (fsub w pos) z \<and> exact_div (fmul (fsub w pos) z) z \<and>
     exact_add (fdiv (fmul (fsub w pos) z) z) pos"

section \<open>Evaluating binary32 operations on literals\<close>

lemma bitlen_numeral: "bitlen (numeral n) = bitlen (numeral n div 2) + 1"
  by (subst compute_bitlen) simp

lemma bitlen_one: "bitlen 1 = 1"
  by (subst compute_bitlen) simp

lemma Let_f32:
  "Let (Finite s m e) g = g (Finite s m e)"
  "Let NaN g = g NaN"
  "Let (Infinity s) g = g (Infinity s)"
  by simp_all

lemmas f32_eval = f32_round_def f32_round_scaled_def f32_round_at_def f32_pack_def rne_def
  bitlen_numeral bitlen_one f32_of_int_def f32_lit_def pow2_def fsub_def fneg_def Let_f32

lemma f32_round_zero: "f32_round s 0 = Finite s 0 (- 149)"
  by (simp add: f32_round_def)

lemma f32_round_2: "f32_round False 2 = Finite False 8388608 (- 22)"
  by (simp add: f32_eval)

lemma f32_round_tenth: "f32_round False (1 / 10) = Finite False 13421773 (- 27)"
  by (simp add: f32_eval)

section \<open>General facts about binary32 values\<close>

lemma pow2_pos: "0 < pow2 e"
  by (simp add: pow2_def)

lemma valof_neg: "valof (Finite (\<not> s) m e) = - valof (Finite s m e)"
  by simp

lemma flt_imp_fle: "flt a b \<Longrightarrow> fle a b"
  by (cases a; cases b) auto

lemma feq_imp_fle: "feq a b \<Longrightarrow> fle a b"
  by (cases a; cases b) auto

lemma fle_not_flt: "fle a b \<Longrightarrow> \<not> flt b a"
  by (cases a; cases b) auto

lemma f32_round_nonneg:
  assumes "0 \<le> x"
  shows "fle (Finite False 0 (- 149)) (f32_round False x)"
proof (cases "x = 0")
  case True
  then show ?thesis by (simp add: f32_round_def)
next
  case False
  with assms have "\<not> x < 0" by simp
  then show ?thesis
    using False pow2_pos
    by (simp add: f32_round_def f32_round_scaled_def f32_round_at_def f32_pack_def less_imp_le)
qed

lemma fsub_self: "is_finite c \<Longrightarrow> fsub c c = Finite False 0 (- 149)"
  by (cases c) (simp_all add: fsub_def fneg_def f32_round_def)

lemma fadd_finite: "is_finite (fadd a b) \<Longrightarrow> is_finite a \<and> is_finite b"
  by (cases a; cases b) (auto split: if_splits)

section \<open>Subdivision\<close>

declare subdivide.simps [simp del] subdivide_loop.simps [simp del]

lemma calculateChildRect_in_range:
  assumes "0 \<le> i" and "i < 4"
  shows "\<exists>r. calculateChildRect q i = Inr r"
proof -
  from assms have "i = 0 \<or> i = 1 \<or> i = 2 \<or> i = 3" by arith
  then show ?thesis
    by (auto simp: calculateChildRect_def Let_def)
qed

lemma subdivide_returns_aux:
  "\<exists>q'. subdivide q = Inr q' \<and> bounds q' = bounds q \<and> depth q' = depth q"
  "0 \<le> i \<Longrightarrow> \<exists>q'. subdivide_loop i q = Inr q' \<and> bounds q' = bounds q \<and> depth q' = depth q"
proof (induction q and i q rule: subdivide_subdivide_loop.induct)
  case (1 q)
  show ?case
  proof (cases "children q \<noteq> [] \<or> depth q \<le> 0")
    case True
    then show ?thesis by (simp add: subdivide.simps)
  next
    case False
    with 1 have "\<exists>q'. subdivide_loop 0 q = Inr q' \<and> bounds q' = bounds q \<and> depth q' = depth q"
      by simp
    with False show ?thesis by (simp add: subdivide.simps)
  qed
next
  case (2 i q)
  show ?case
  proof (cases "i < 4")
    case False
    then show ?thesis by (simp add: subdivide_loop.simps)
  next
    case True
    with \<open>0 \<le> i\<close> obtain r where r: "calculateChildRect q i = Inr r"
      using calculateChildRect_in_range by blast
    from 2(1)[OF True r] obtain c where c: "subdivide (new_Quadtree r (depth q - 1)) = Inr c"
      by blast
    from 2(2)[OF True r c] \<open>0 \<le> i\<close>
    obtain q' where "subdivide_loop (i + 1) (Quadtree (bounds q) (children q @ [c]) (depth q)) = Inr q'"
      "bounds q' = bounds q" "depth q' = depth q"
      by auto
    with True r c show ?thesis
      by (subst subdivide_loop.simps) simp
  qed
qed

lemma subdivide_returns: "\<exists>q'. subdivide q = Inr q'"
  using subdivide_returns_aux(1) by blast

lemma subdivide_noop: "children q \<noteq> [] \<or> depth q \<le> 0 \<Longrightarrow> subdivide q = Inr q"
  by (subst subdivide.simps) simp

lemma subdivide_unroll:
  assumes "0 < depth q" and "children q = []"
  shows "\<exists>r0 r1 r2 r3 c0 c1 c2 c3.
      calculateChildRect q 0 = Inr r0 \<and> calculateChildRect q 1 = Inr r1 \<and>
      calculateChildRect q 2 = Inr r2 \<and> calculateChildRect q 3 = Inr r3 \<and>
      subdivide (new_Quadtree r0 (depth q - 1)) = Inr c0 \<and>
      subdivide (new_Quadtree r1 (depth q - 1)) = Inr c1 \<and>
      subdivide (new_Quadtree r2 (depth q - 1)) = Inr c2 \<and>
      subdivide (new_Quadtree r3 (depth q - 1)) = Inr c3 \<and>
      subdivide q = Inr (Quadtree (bounds q) [c0, c1, c2, c3] (depth q))"
proof -
  obtain r0 where r0: "calculateChildRect q 0 = Inr r0"
    using calculateChildRect_in_range[of 0 q] by auto
  obtain r1 where r1: "calculateChildRect q 1 = Inr r1"
    using calculateChildRect_in_range[of 1 q] by auto
  obtain r2 where r2: "calculateChildRect q 2 = Inr r2"
    using calculateChildRect_in_range[of 2 q] by auto
  obtain r3 where r3: "calculateChildRect q 3 = Inr r3"
    using calculateChildRect_in_range[of 3 q] by auto
  obtain c0 where c0: "subdivide (new_Quadtree r0 (depth q - 1)) = Inr c0"
    using subdivide_returns by blast
  obtain c1 where c1: "subdivide (new_Quadtree r1 (depth q - 1)) = Inr c1"
    using subdivide_returns by blast
  obtain c2 where c2: "subdivide (new_Quadtree r2 (depth q - 1)) = Inr c2"
    using subdivide_returns by blast
  obtain c3 where c3: "subdivide (new_Quadtree r3 (depth q - 1)) = Inr c3"
    using subdivide_returns by blast
  have q: "q = Quadtree (bounds q) [] (depth q)"
    using assms(2) by (cases q) simp
  have r1': "calculateChildRect (Quadtree (bounds q) [c0] (depth q)) 1 = Inr r1"
    using r1 by (subst (asm) q) (simp add: calculateChildRect_def)
  have r2': "calculateChildRect (Quadtree (bounds q) [c0, c1] (depth q)) 2 = Inr r2"
    using r2 by (subst (asm) q) (simp add: calculateChildRect_def)
  have r3': "calculateChildRect (Quadtree (bounds q) [c0, c1, c2] (depth q)) 3 = Inr r3"
    using r3 by (subst (asm) q) (simp add: calculateChildRect_def)
  have l4: "subdivide_loop 4 (Quadtree (bounds q) [c0, c1, c2, c3] (depth q))
      = Inr (Quadtree (bounds q) [c0, c1, c2, c3] (depth q))"
    by (subst subdivide_loop.simps) simp
  have l3: "subdivide_loop 3 (Quadtree (bounds q) [c0, c1, c2] (depth q))
      = Inr (Quadtree (bounds q) [c0, c1, c2, c3] (depth q))"
    by (subst subdivide_loop.simps) (simp add: r3' c3 l4)
  have l2: "subdivide_loop 2 (Quadtree (bounds q) [c0, c1] (depth q))
      = Inr (Quadtree (bounds q) [c0, c1, c2, c3] (depth q))"
    by (subst subdivide_loop.simps) (simp add: r2' c2 l3)
  have l1: "subdivide_loop 1 (Quadtree (bounds q) [c0] (depth q))
      = Inr (Quadtree (bounds q) [c0, c1, c2, c3] (depth q))"
    by (subst subdivide_loop.simps) (simp add: r1' c1 l2)
  have l0: "subdivide_loop 0 q = Inr (Quadtree (bounds q) [c0, c1, c2, c3] (depth q))"
    by (subst subdivide_loop.simps) (simp add: r0 c0 assms(2) l1)
  have "subdivide q = Inr (Quadtree (bounds q) [c0, c1, c2, c3] (depth q))"
    using assms l0 by (subst subdivide.simps) simp
  with r0 r1 r2 r3 c0 c1 c2 c3 show ?thesis by blast
qed

lemma tiles_quadrants:
  fixes r :: FloatRect
  assumes "valof hw = valof (width r) / 2" and "valof hh = valof (height r) / 2"
    and "valof x1 = valof (left r) + valof hw" and "valof y1 = valof (top_r r) + valof hh"
  shows "tiles r [FloatRect (left r) (top_r r) hw hh, FloatRect x1 (top_r r) hw hh,
                  FloatRect (left r) y1 hw hh, FloatRect x1 y1 hw hh]"
proof -
  have cover: "(\<Union>c \<in> set [FloatRect (left r) (top_r r) hw hh, FloatRect x1 (top_r r) hw hh,
                  FloatRect (left r) y1 hw hh, FloatRect x1 y1 hw hh]. rect_pts c) = rect_pts r"
    using assms by (auto simp: rect_pts_def)
  have disj: "pairwise_disjoint (map rect_pts [FloatRect (left r) (top_r r) hw hh,
                  FloatRect x1 (top_r r) hw hh, FloatRect (left r) y1 hw hh, FloatRect x1 y1 hw hh])"
    using assms by (auto simp: rect_pts_def)
  from cover disj show ?thesis
    unfolding tiles_def by blast
qed

lemma subdivide_fresh_children:
  assumes "0 < d"
  shows "\<exists>c0 c1 c2 c3.
     subdivide (new_Quadtree (FloatRect x y w h) d)
       = Inr (Quadtree (FloatRect x y w h) [c0, c1, c2, c3] d) \<and>
     bounds c0 = FloatRect x y (fdiv w (f32_lit 2)) (fdiv h (f32_lit 2)) \<and>
     bounds c1 = FloatRect (fadd x (fdiv w (f32_lit 2))) y (fdiv w (f32_lit 2)) (fdiv h (f32_lit 2)) \<and>
     bounds c2 = FloatRect x (fadd y (fdiv h (f32_lit 2))) (fdiv w (f32_lit 2)) (fdiv h (f32_lit 2)) \<and>
     bounds c3 = FloatRect (fadd x (fdiv w (f32_lit 2))) (fadd y (fdiv h (f32_lit 2)))
                   (fdiv w (f32_lit 2)) (fdiv h (f32_lit 2)) \<and>
     depth c0 = d - 1 \<and> depth c1 = d - 1 \<and> depth c2 = d - 1 \<and> depth c3 = d - 1"
proof -
  let ?q = "new_Quadtree (FloatRect x y w h) d"
  have "0 < depth ?q" and "children ?q = []"
    using assms by (simp_all add: new_Quadtree_def)
  from subdivide_unroll[OF this]
  obtain r0 r1 r2 r3 c0 c1 c2 c3 where
    r: "calculateChildRect ?q 0 = Inr r0" "calculateChildRect ?q 1 = Inr r1"
       "calculateChildRect ?q 2 = Inr r2" "calculateChildRect ?q 3 = Inr r3"
    and c: "subdivide (new_Quadtree r0 (depth ?q - 1)) = Inr c0"
       "subdivide (new_Quadtree r1 (depth ?q - 1)) = Inr c1"
       "subdivide (new_Quadtree r2 (depth ?q - 1)) = Inr c2"
       "subdivide (new_Quadtree r3 (depth ?q - 1)) = Inr c3"
    and s: "subdivide ?q = Inr (Quadtree (bounds ?q) [c0, c1, c2, c3] (depth ?q))"
    by blast
  have b: "bounds c0 = r0 \<and> depth c0 = d - 1" "bounds c1 = r1 \<and> depth c1 = d - 1"
    "bounds c2 = r2 \<and> depth c2 = d - 1" "bounds c3 = r3 \<and> depth c3 = d - 1"
    using c subdivide_returns_aux(1)[of "new_Quadtree r0 (depth ?q - 1)"]
      subdivide_returns_aux(1)[of "new_Quadtree r1 (depth ?q - 1)"]
      subdivide_returns_aux(1)[of "new_Quadtree r2 (depth ?q - 1)"]
      subdivide_returns_aux(1)[of "new_Quadtree r3 (depth ?q - 1)"]
    by (auto simp: new_Quadtree_def)
  from r have
    "r0 = FloatRect x y (fdiv w (f32_lit 2)) (fdiv h (f32_lit 2))"
    "r1 = FloatRect (fadd x (fdiv w (f32_lit 2))) y (fdiv w (f32_lit 2)) (fdiv h (f32_lit 2))"
    "r2 = FloatRect x (fadd y (fdiv h (f32_lit 2))) (fdiv w (f32_lit 2)) (fdiv h (f32_lit 2))"
    "r3 = FloatRect (fadd x (fdiv w (f32_lit 2))) (fadd y (fdiv h (f32_lit 2)))
                   (fdiv w (f32_lit 2)) (fdiv h (f32_lit 2))"
    by (simp_all add: calculateChildRect_def new_Quadtree_def Let_def)
  with b s show ?thesis
    by (simp add: new_Quadtree_def)
qed

section \<open>Numbers that binary32 represents are not rounded\<close>

lemma pow2_powi: "pow2 e = 2 powi e"
  by (simp add: pow2_def power_int_def inverse_eq_divide power_one_over)

lemma rne_of_int: "rne (of_int N) = N"
  by (simp add: rne_def)

lemma f32_round_representable:
  fixes n :: int and j :: nat
  assumes n: "0 < n" "n < 2 ^ 24" and j: "bitlen n + int j \<le> 277"
  shows "\<exists>m e. f32_round s (of_int n * 2 ^ j / 2 ^ 149) = Finite False m e \<and>
           real m * pow2 e = of_int n * 2 ^ j / 2 ^ 149"
proof -
  let ?r = "(of_int n * 2 ^ j / 2 ^ 149 :: real)"
  let ?N = "n * 2 ^ j"
  have rpos: "0 < ?r" using n by simp
  have a: "\<bar>?r\<bar> * 2 ^ 149 = of_int ?N" using n by simp
  have b: "bitlen ?N = bitlen n + int j" using n by simp
  have b24: "bitlen n \<le> 24" using n by (simp add: bitlen_le_iff_power)
  have nneg: "\<not> ?r < 0" using rpos by (simp only: not_less less_imp_le)
  have ne: "?r \<noteq> 0" using rpos by (metis less_irrefl)
  have "f32_round s ?r = f32_round_scaled False (\<bar>?r\<bar> * 2 ^ 149)"
    by (simp only: f32_round_def ne nneg if_False)
  also have "\<dots> = f32_round_scaled False (of_int ?N)"
    by (simp only: a)
  also have "\<dots> = f32_round_at False (of_int ?N) (max 0 (bitlen n + int j - 24))"
    by (simp only: f32_round_scaled_def floor_of_int b)
  finally have r: "f32_round s ?r
      = f32_round_at False (of_int ?N) (max 0 (bitlen n + int j - 24))" .
  show ?thesis
  proof (cases "bitlen n + int j \<le> 24")
    case True
    then have k: "max 0 (bitlen n + int j - 24) = 0" by simp
    have "bitlen ?N \<le> 24" using True b by simp
    then have lt: "?N < 2 ^ 24" by (simp add: bitlen_le_iff_power)
    have pos: "0 < ?N" using n by simp
    have "f32_round s ?r = Finite False (nat ?N) (- 149)"
      unfolding r k f32_round_at_def using lt
      by (simp add: rne_of_int f32_pack_def del: of_int_mult of_int_power)
    moreover have "real (nat ?N) * pow2 (- 149) = ?r"
      using pos by (simp add: pow2_def)
    ultimately show ?thesis by blast
  next
    case False
    define k where "k = nat (bitlen n + int j - 24)"
    have kpos: "0 < k" and kj: "k \<le> j" and kk: "int k = bitlen n + int j - 24"
      using False b24 by (simp_all add: k_def)
    have kmax: "max 0 (bitlen n + int j - 24) = int k" using kk False by simp
    let ?M = "n * 2 ^ (j - k)"
    have split: "(2::real) ^ j = 2 ^ (j - k) * 2 ^ k"
      using kj by (simp flip: power_add)
    have q: "(of_int ?N :: real) / 2 ^ nat (int k) = of_int ?M"
      by (simp add: split)
    have "bitlen ?M = bitlen n + int (j - k)" using n by simp
    also have "\<dots> = 24" using kk kj by simp
    finally have "bitlen ?M \<le> 24" by simp
    then have lt: "?M < 2 ^ 24" by (simp add: bitlen_le_iff_power)
    have pos: "0 < ?M" using n by simp
    have k253: "\<not> 253 < int k" using j kk by simp
    have "f32_round s ?r = Finite False (nat ?M) (int k - 149)"
      unfolding r kmax f32_round_at_def q using lt k253
      by (simp add: rne_of_int f32_pack_def del: of_int_mult of_int_power)
    moreover have "real (nat ?M) * pow2 (int k - 149) = ?r"
    proof -
      have "pow2 (int k - 149) = 2 ^ k / 2 ^ 149"
        by (simp add: pow2_powi power_int_diff)
      then show ?thesis using pos by (simp add: split)
    qed
    ultimately show ?thesis by blast
  qed
qed

lemma f32_round_small_int:
  assumes "0 \<le> W" and "W < 2 ^ 24"
  shows "\<exists>m e. f32_round False (of_int W) = Finite False m e \<and> real m * pow2 e = of_int W"
proof (cases "W = 0")
  case True
  then show ?thesis by (simp add: f32_round_zero)
next
  case False
  with assms have W: "0 < W" "W < 2 ^ 24" by simp_all
  then have "bitlen W \<le> 24" by (simp add: bitlen_le_iff_power)
  then have "bitlen W + int 149 \<le> 277" by simp
  from f32_round_representable[OF W this, of False] show ?thesis by simp
qed

lemma f32_round_small_int_half:
  assumes "0 \<le> W" and "W < 2 ^ 24"
  shows "\<exists>m e. f32_round False (of_int W / 2) = Finite False m e \<and> real m * pow2 e = of_int W / 2"
proof (cases "W = 0")
  case True
  then show ?thesis by (simp add: f32_round_zero)
next
  case False
  with assms have W: "0 < W" "W < 2 ^ 24" by simp_all
  then have "bitlen W \<le> 24" by (simp add: bitlen_le_iff_power)
  then have "bitlen W + int 148 \<le> 277" by simp
  from f32_round_representable[OF W this, of False]
  obtain m e where "f32_round False (of_int W * 2 ^ 148 / 2 ^ 149) = Finite False m e"
    "real m * pow2 e = of_int W * 2 ^ 148 / 2 ^ 149"
    by blast
  moreover have "(of_int W * 2 ^ 148 / 2 ^ 149 :: real) = of_int W / 2" by simp
  ultimately show ?thesis by (simp only:) blast
qed

lemma exact_halving_window:
  assumes "0 \<le> W" and "W < 2 ^ 24"
  shows "exact_div (f32_of_int W) (f32_lit 2) \<and>
         exact_add (f32_lit 0) (fdiv (f32_of_int W) (f32_lit 2))"
proof -
  from f32_round_small_int[OF assms] obtain m e where
    w: "f32_round False (of_int W) = Finite False m e" "real m * pow2 e = of_int W"
    by blast
  from f32_round_small_int_half[OF assms] obtain m' e' where
    h: "f32_round False (of_int W / 2) = Finite False m' e'" "real m' * pow2 e' = of_int W / 2"
    by blast
  have two: "valof (Finite False 8388608 (- 22)) = 2"
    by (simp add: pow2_def)
  have v: "valof (Finite False m e) / valof (Finite False 8388608 (- 22)) = of_int W / 2"
    using w(2) by (simp add: pow2_def)
  have "fdiv (Finite False m e) (Finite False 8388608 (- 22))
      = f32_round False (valof (Finite False m e) / valof (Finite False 8388608 (- 22)))"
    by (simp del: valof.simps)
  then have d: "fdiv (Finite False m e) (Finite False 8388608 (- 22)) = Finite False m' e'"
    by (simp only: v h(1))
  have v': "valof (Finite False 0 (- 149)) + valof (Finite False m' e') = of_int W / 2"
    using h(2) by simp
  have "fadd (Finite False 0 (- 149)) (Finite False m' e')
      = f32_round False (valof (Finite False 0 (- 149)) + valof (Finite False m' e'))"
    by (simp del: valof.simps)
  then have a: "fadd (Finite False 0 (- 149)) (Finite False m' e') = Finite False m' e'"
    by (simp only: v' h(1))
  have fw: "f32_of_int W = Finite False m e"
    by (simp only: f32_of_int_def w(1))
  have f2: "f32_lit 2 = Finite False 8388608 (- 22)"
    by (simp only: f32_lit_def f32_round_2)
  have f0: "f32_lit 0 = Finite False 0 (- 149)"
    by (simp only: f32_lit_def f32_round_zero)
  have vw: "valof (Finite False m e) = of_int W" using w(2) by simp
  have vh: "valof (Finite False m' e') = of_int W / 2" using h(2) by simp
  have "exact_div (Finite False m e) (Finite False 8388608 (- 22))"
    unfolding exact_div_def d vw vh two by simp
  moreover have "exact_add (Finite False 0 (- 149)) (Finite False m' e')"
    unfolding exact_add_def a by simp
  ultimately show ?thesis
    by (simp only: fw f2 f0 d)
qed

lemma exact_split_window:
  assumes "0 \<le> W" and "W < 2 ^ 24" and "0 \<le> H" and "H < 2 ^ 24"
  shows "exact_split (FloatRect (f32_lit 0) (f32_lit 0) (f32_of_int W) (f32_of_int H))"
  using exact_halving_window[OF assms(1,2)] exact_halving_window[OF assms(3,4)]
  by (simp add: exact_split_def)

section \<open>Integer values below \<open>2^24\<close> are computed exactly\<close>

lemma fneg_pack: "fneg (f32_pack sg k m) = f32_pack (\<not> sg) k m"
  by (simp add: f32_pack_def fneg_def)

lemma f32_round_minus:
  assumes "r \<noteq> 0"
  shows "f32_round s (- r) = fneg (f32_round s r)"
proof -
  from assms have "(0 < r) = (\<not> r < 0)" by auto
  with assms show ?thesis
    by (simp add: f32_round_def f32_round_scaled_def f32_round_at_def fneg_pack)
qed

lemma valof_fneg: "valof (fneg x) = - valof x"
  by (cases x) (simp_all add: fneg_def)

lemma is_finite_fneg: "is_finite (fneg x) = is_finite x"
  by (cases x) (simp_all add: fneg_def)

lemma f32_round_pos_int:
  assumes "0 < n" and "n < 2 ^ 24"
  shows "is_finite (f32_round s (of_int n)) \<and> valof (f32_round s (of_int n)) = of_int n"
proof -
  from assms have "bitlen n \<le> 24" by (simp add: bitlen_le_iff_power)
  then have "bitlen n + int 149 \<le> 277" by simp
  from f32_round_representable[OF assms this, of s]
  obtain m e where "f32_round s (of_int n * 2 ^ 149 / 2 ^ 149) = Finite False m e"
    "real m * pow2 e = of_int n * 2 ^ 149 / 2 ^ 149"
    by blast
  moreover have "(of_int n * 2 ^ 149 / 2 ^ 149 :: real) = of_int n" by simp
  ultimately have "f32_round s (of_int n) = Finite False m e" "real m * pow2 e = of_int n"
    by (simp_all only:)
  then show ?thesis by simp
qed

lemma f32_round_int_exact:
  assumes "\<bar>n\<bar> < 2 ^ 24"
  shows "is_finite (f32_round s (of_int n)) \<and> valof (f32_round s (of_int n)) = of_int n"
proof -
  consider "n = 0" | "0 < n" | "n < 0" by linarith
  then show ?thesis
  proof cases
    case 1
    then show ?thesis by (simp add: f32_round_zero)
  next
    case 2
    with assms show ?thesis by (simp add: f32_round_pos_int)
  next
    case 3
    with assms have k: "0 < - n" "- n < 2 ^ 24" by simp_all
    have "f32_round s (of_int n) = f32_round s (- of_int (- n))" by simp
    also have "\<dots> = fneg (f32_round s (of_int (- n)))"
      using 3 by (intro f32_round_minus) simp
    finally show ?thesis
      using f32_round_pos_int[OF k, of s] by (simp add: valof_fneg is_finite_fneg)
  qed
qed

lemma int_fadd:
  assumes "is_finite a" and "valof a = of_int i" and "is_finite b" and "valof b = of_int k"
    and "\<bar>i + k\<bar> < 2 ^ 24"
  shows "exact_add a b \<and> valof (fadd a b) = of_int (i + k)"
proof -
  from assms(1) obtain s m e where a: "a = Finite s m e" by (cases a) simp_all
  from assms(3) obtain t n f where b: "b = Finite t n f" by (cases b) simp_all
  have "fadd a b = f32_round (s \<and> t) (valof a + valof b)"
    unfolding a b by (simp del: valof.simps)
  then have "fadd a b = f32_round (s \<and> t) (of_int (i + k))"
    by (simp add: assms(2,4))
  with f32_round_int_exact[OF assms(5), of "s \<and> t"] assms show ?thesis
    by (simp add: exact_add_def)
qed

lemma int_fsub:
  assumes "is_finite a" and "valof a = of_int i" and "is_finite b" and "valof b = of_int k"
    and "\<bar>i - k\<bar> < 2 ^ 24"
  shows "exact_sub a b \<and> valof (fsub a b) = of_int (i - k)"
proof -
  have "is_finite (fneg b)" "valof (fneg b) = of_int (- k)"
    using assms(3,4) by (simp_all add: is_finite_fneg valof_fneg)
  moreover have "\<bar>i + (- k)\<bar> < 2 ^ 24" using assms(5) by simp
  ultimately have "exact_add a (fneg b) \<and> valof (fadd a (fneg b)) = of_int (i + (- k))"
    using assms(1,2) by (intro int_fadd)
  with assms show ?thesis
    by (simp add: exact_sub_def exact_add_def fsub_def)
qed

lemma int_fmul:
  assumes "is_finite a" and "valof a = of_int i" and "is_finite b" and "valof b = of_int k"
    and "\<bar>i * k\<bar> < 2 ^ 24"
  shows "exact_mul a b \<and> valof (fmul a b) = of_int (i * k)"
proof -
  from assms(1) obtain s m e where a: "a = Finite s m e" by (cases a) simp_all
  from assms(3) obtain t n f where b: "b = Finite t n f" by (cases b) simp_all
  have "fmul a b = f32_round (s \<noteq> t) (valof a * valof b)"
    unfolding a b by (simp del: valof.simps)
  then have "fmul a b = f32_round (s \<noteq> t) (of_int (i * k))"
    by (simp add: assms(2,4))
  with f32_round_int_exact[OF assms(5), of "s \<noteq> t"] assms show ?thesis
    by (simp add: exact_mul_def)
qed

lemma f32_of_int_exact:
  "\<bar>n\<bar> < 2 ^ 24 \<Longrightarrow> is_finite (f32_of_int n) \<and> valof (f32_of_int n) = of_int n"
  by (simp add: f32_of_int_def f32_round_int_exact)

lemma exact_contains_integers:
  fixes px py r qx qy :: int
  assumes c: "\<bar>px\<bar> < 2 ^ 24" "\<bar>py\<bar> < 2 ^ 24" "\<bar>r\<bar> < 2 ^ 24" "\<bar>qx\<bar> < 2 ^ 24" "\<bar>qy\<bar> < 2 ^ 24"
    and s: "\<bar>px + r\<bar> < 2 ^ 24" "\<bar>py + r\<bar> < 2 ^ 24"
    and d: "(qx - (px + r))\<^sup>2 + (qy - (py + r))\<^sup>2 < 2 ^ 24" "r\<^sup>2 < 2 ^ 24"
  shows "exact_contains (new_Unit (Vector2f (f32_of_int px) (f32_of_int py)) (f32_of_int r))
           (Vector2f (f32_of_int qx) (f32_of_int qy))"
proof -
  let ?dx = "qx - (px + r)" and ?dy = "qy - (py + r)"
  note P = f32_of_int_exact[OF c(1)] f32_of_int_exact[OF c(2)] f32_of_int_exact[OF c(3)]
    f32_of_int_exact[OF c(4)] f32_of_int_exact[OF c(5)]
  have sq: "0 \<le> ?dx\<^sup>2" "0 \<le> ?dy\<^sup>2" by simp_all
  with d(1) have dx2: "?dx\<^sup>2 < 2 ^ 24" and dy2: "?dy\<^sup>2 < 2 ^ 24" by linarith+
  have small: "\<bar>v\<bar> < 2 ^ 24" if "v\<^sup>2 < 2 ^ 24" for v :: int
  proof (rule ccontr)
    assume "\<not> \<bar>v\<bar> < 2 ^ 24"
    then have "2 ^ 24 \<le> \<bar>v\<bar>" by simp
    then have "(2 ^ 24) * 1 \<le> \<bar>v\<bar> * \<bar>v\<bar>" by (intro mult_mono) simp_all
    then have "(2 ^ 24 :: int) \<le> v\<^sup>2" by (simp add: power2_eq_square abs_mult_self_eq)
    with that show False by simp
  qed
  have cx: "exact_add (f32_of_int px) (f32_of_int r) \<and>
      valof (fadd (f32_of_int px) (f32_of_int r)) = of_int (px + r)"
    using P s(1) by (intro int_fadd) simp_all
  have cy: "exact_add (f32_of_int py) (f32_of_int r) \<and>
      valof (fadd (f32_of_int py) (f32_of_int r)) = of_int (py + r)"
    using P s(2) by (intro int_fadd) simp_all
  have fx: "is_finite (fadd (f32_of_int px) (f32_of_int r))"
    and fy: "is_finite (fadd (f32_of_int py) (f32_of_int r))"
    using cx cy by (simp_all add: exact_add_def)
  have dx: "exact_sub (f32_of_int qx) (fadd (f32_of_int px) (f32_of_int r)) \<and>
      valof (fsub (f32_of_int qx) (fadd (f32_of_int px) (f32_of_int r))) = of_int ?dx"
    using P cx fx small[OF dx2] by (intro int_fsub) simp_all
  have dy: "exact_sub (f32_of_int qy) (fadd (f32_of_int py) (f32_of_int r)) \<and>
      valof (fsub (f32_of_int qy) (fadd (f32_of_int py) (f32_of_int r))) = of_int ?dy"
    using P cy fy small[OF dy2] by (intro int_fsub) simp_all
  have fdx: "is_finite (fsub (f32_of_int qx) (fadd (f32_of_int px) (f32_of_int r)))"
    and fdy: "is_finite (fsub (f32_of_int qy) (fadd (f32_of_int py) (f32_of_int r)))"
    using dx dy by (simp_all add: exact_sub_def)
  have mx: "exact_mul (fsub (f32_of_int qx) (fadd (f32_of_int px) (f32_of_int r)))
        (fsub (f32_of_int qx) (fadd (f32_of_int px) (f32_of_int r))) \<and>
      valof (fmul (fsub (f32_of_int qx) (fadd (f32_of_int px) (f32_of_int r)))
        (fsub (f32_of_int qx) (fadd (f32_of_int px) (f32_of_int r)))) = of_int (?dx * ?dx)"
    using dx fdx dx2 by (intro int_fmul) (simp_all add: power2_eq_square abs_mult)
  have my: "exact_mul (fsub (f32_of_int qy) (fadd (f32_of_int py) (f32_of_int r)))
        (fsub (f32_of_int qy) (fadd (f32_of_int py) (f32_of_int r))) \<and>
      valof (fmul (fsub (f32_of_int qy) (fadd (f32_of_int py) (f32_of_int r)))
        (fsub (f32_of_int qy) (fadd (f32_of_int py) (f32_of_int r)))) = of_int (?dy * ?dy)"
    using dy fdy dy2 by (intro int_fmul) (simp_all add: power2_eq_square abs_mult)
  have fmx: "is_finite (fmul (fsub (f32_of_int qx) (fadd (f32_of_int px) (f32_of_int r)))
        (fsub (f32_of_int qx) (fadd (f32_of_int px) (f32_of_int r))))"
    and fmy: "is_finite (fmul (fsub (f32_of_int qy) (fadd (f32_of_int py) (f32_of_int r)))
        (fsub (f32_of_int qy) (fadd (f32_of_int py) (f32_of_int r))))"
    using mx my by (simp_all add: exact_mul_def)
  have "\<bar>?dx * ?dx + ?dy * ?dy\<bar> < 2 ^ 24"
    using d(1) by (simp add: power2_eq_square)
  with mx my fmx fmy
  have sm: "exact_add
      (fmul (fsub (f32_of_int qx) (fadd (f32_of_int px) (f32_of_int r)))
        (fsub (f32_of_int qx) (fadd (f32_of_int px) (f32_of_int r))))
      (fmul (fsub (f32_of_int qy) (fadd (f32_of_int py) (f32_of_int r)))
        (fsub (f32_of_int qy) (fadd (f32_of_int py) (f32_of_int r)))) \<and>
      valof (fadd
      (fmul (fsub (f32_of_int qx) (fadd (f32_of_int px) (f32_of_int r)))
        (fsub (f32_of_int qx) (fadd (f32_of_int px) (f32_of_int r))))
      (fmul (fsub (f32_of_int qy) (fadd (f32_of_int py) (f32_of_int r)))
        (fsub (f32_of_int qy) (fadd (f32_of_int py) (f32_of_int r)))))
      = of_int (?dx * ?dx + ?dy * ?dy)"
    by (intro int_fadd) simp_all
  have rr: "exact_mul (f32_of_int r) (f32_of_int r) \<and>
      valof (fmul (f32_of_int r) (f32_of_int r)) = of_int (r * r)"
    using P d(2) by (intro int_fmul) (simp_all add: power2_eq_square abs_mult)
  from cx cy dx dy mx my sm rr show ?thesis
    by (simp add: exact_contains_def new_Unit_def Let_def)
qed

lemma f32_round_1: "f32_round False 1 = Finite False 8388608 (- 23)"
  by (simp add: f32_eval)

lemma int_fdiv_one:
  assumes "is_finite a" and "valof a = of_int i" and "\<bar>i\<bar> < 2 ^ 24"
  shows "exact_div a (f32_lit 1) \<and> valof (fdiv a (f32_lit 1)) = of_int i"
proof -
  from assms(1) obtain s m e where a: "a = Finite s m e" by (cases a) simp_all
  have one: "f32_lit 1 = Finite False 8388608 (- 23)"
    by (simp only: f32_lit_def f32_round_1)
  have v1: "valof (Finite False 8388608 (- 23)) = 1"
    by (simp add: pow2_def)
  have "fdiv a (f32_lit 1) = f32_round (s \<noteq> False) (valof a / valof (Finite False 8388608 (- 23)))"
    unfolding a one by (simp del: valof.simps)
  then have "fdiv a (f32_lit 1) = f32_round (s \<noteq> False) (of_int i)"
    by (simp only: v1 assms(2) div_by_1)
  with f32_round_int_exact[OF assms(3), of "s \<noteq> False"] assms(1,2) show ?thesis
    by (simp add: exact_div_def one v1 del: valof.simps)
qed

lemma exact_trip_integers:
  fixes w pos :: int
  assumes "\<bar>w\<bar> < 2 ^ 24" and "\<bar>pos\<bar> < 2 ^ 24" and "\<bar>w - pos\<bar> < 2 ^ 24"
  shows "exact_trip (f32_of_int pos) (f32_lit 1) (f32_of_int w)"
proof -
  note W = f32_of_int_exact[OF assms(1)] and P = f32_of_int_exact[OF assms(2)]
  have one: "is_finite (f32_lit 1)" "valof (f32_lit 1) = of_int 1"
    by (simp_all add: f32_lit_def f32_round_1 pow2_def)
  have s: "exact_sub (f32_of_int w) (f32_of_int pos) \<and>
      valof (fsub (f32_of_int w) (f32_of_int pos)) = of_int (w - pos)"
    using W P assms(3) by (intro int_fsub) simp_all
  then have fs: "is_finite (fsub (f32_of_int w) (f32_of_int pos))"
    by (simp add: exact_sub_def)
  have m: "exact_mul (fsub (f32_of_int w) (f32_of_int pos)) (f32_lit 1) \<and>
      valof (fmul (fsub (f32_of_int w) (f32_of_int pos)) (f32_lit 1)) = of_int ((w - pos) * 1)"
    using s fs one assms(3) by (intro int_fmul) simp_all
  then have fm: "is_finite (fmul (fsub (f32_of_int w) (f32_of_int pos)) (f32_lit 1))"
    and vm: "valof (fmul (fsub (f32_of_int w) (f32_of_int pos)) (f32_lit 1)) = of_int (w - pos)"
    by (simp_all add: exact_mul_def)
  have d: "exact_div (fmul (fsub (f32_of_int w) (f32_of_int pos)) (f32_lit 1)) (f32_lit 1) \<and>
      valof (fdiv (fmul (fsub (f32_of_int w) (f32_of_int pos)) (f32_lit 1)) (f32_lit 1))
        = of_int (w - pos)"
    using fm vm assms(3) by (intro int_fdiv_one)
  then have fd: "is_finite (fdiv (fmul (fsub (f32_of_int w) (f32_of_int pos)) (f32_lit 1))
      (f32_lit 1))"
    by (simp add: exact_div_def)
  have "\<bar>(w - pos) + pos\<bar> < 2 ^ 24" using assms(1) by simp
  with d fd P
  have "exact_add (fdiv (fmul (fsub (f32_of_int w) (f32_of_int pos)) (f32_lit 1)) (f32_lit 1))
      (f32_of_int pos) \<and>
      valof (fadd (fdiv (fmul (fsub (f32_of_int w) (f32_of_int pos)) (f32_lit 1)) (f32_lit 1))
        (f32_of_int pos)) = of_int ((w - pos) + pos)"
    by (intro int_fadd) simp_all
  with s m d show ?thesis
    by (simp add: exact_trip_def)
qed

section \<open>The claims about subdivision\<close>

text \<open>
  C1, as amended. A region created with rectangle \<open>(x, y, w, h)\<close> and depth \<open>d > 0\<close> has,
  after one call of \<open>subdivide\<close>, exactly four children, in the order top left, top right,
  bottom left, bottom right: the rectangles \<open>(x, y, w', h')\<close>, \<open>(x + w', y, w', h')\<close>,
  \<open>(x, y + h', w', h')\<close> and \<open>(x + w', y + h', w', h')\<close>, where \<open>w' = w / 2.0f\<close>,
  \<open>h' = h / 2.0f\<close> and the sums are computed in float arithmetic; each child has depth
  \<open>d - 1\<close>; and the four rectangles tile \<open>(x, y, w, h)\<close>, with no gap and no overlap,
  whenever the two divisions and the two sums are exact. They are exact for the rectangle
  \<open>(0, 0, W, H)\<close> of every window size \<open>W\<close>, \<open>H\<close> below \<open>2^24\<close>, the root of
  \<open>main\<close>.
\<close>

theorem subdivide_four_children:
  assumes "0 < d"
  shows "(\<exists>c0 c1 c2 c3.
     subdivide (new_Quadtree (FloatRect x y w h) d)
       = Inr (Quadtree (FloatRect x y w h) [c0, c1, c2, c3] d) \<and>
     bounds c0 = FloatRect x y (fdiv w (f32_lit 2)) (fdiv h (f32_lit 2)) \<and>
     bounds c1 = FloatRect (fadd x (fdiv w (f32_lit 2))) y (fdiv w (f32_lit 2)) (fdiv h (f32_lit 2)) \<and>
     bounds c2 = FloatRect x (fadd y (fdiv h (f32_lit 2))) (fdiv w (f32_lit 2)) (fdiv h (f32_lit 2)) \<and>
     bounds c3 = FloatRect (fadd x (fdiv w (f32_lit 2))) (fadd y (fdiv h (f32_lit 2)))
                   (fdiv w (f32_lit 2)) (fdiv h (f32_lit 2)) \<and>
     depth c0 = d - 1 \<and> depth c1 = d - 1 \<and> depth c2 = d - 1 \<and> depth c3 = d - 1 \<and>
     (exact_split (FloatRect x y w h) \<longrightarrow>
        tiles (FloatRect x y w h) [bounds c0, bounds c1, bounds c2, bounds c3])) \<and>
   (0 \<le> W \<and> W < 2 ^ 24 \<and> 0 \<le> H \<and> H < 2 ^ 24 \<longrightarrow>
      exact_split (FloatRect (f32_lit 0) (f32_lit 0) (f32_of_int W) (f32_of_int H)))"
proof -
  have window: "0 \<le> W \<and> W < 2 ^ 24 \<and> 0 \<le> H \<and> H < 2 ^ 24 \<longrightarrow>
      exact_split (FloatRect (f32_lit 0) (f32_lit 0) (f32_of_int W) (f32_of_int H))"
    using exact_split_window[of W H] by blast
  from subdivide_fresh_children[OF assms, of x y w h]
  obtain c0 c1 c2 c3 where
    s: "subdivide (new_Quadtree (FloatRect x y w h) d)
       = Inr (Quadtree (FloatRect x y w h) [c0, c1, c2, c3] d)"
    and b: "bounds c0 = FloatRect x y (fdiv w (f32_lit 2)) (fdiv h (f32_lit 2))"
     "bounds c1 = FloatRect (fadd x (fdiv w (f32_lit 2))) y (fdiv w (f32_lit 2)) (fdiv h (f32_lit 2))"
     "bounds c2 = FloatRect x (fadd y (fdiv h (f32_lit 2))) (fdiv w (f32_lit 2)) (fdiv h (f32_lit 2))"
     "bounds c3 = FloatRect (fadd x (fdiv w (f32_lit 2))) (fadd y (fdiv h (f32_lit 2)))
                   (fdiv w (f32_lit 2)) (fdiv h (f32_lit 2))"
    and d: "depth c0 = d - 1" "depth c1 = d - 1" "depth c2 = d - 1" "depth c3 = d - 1"
    by blast
  have "tiles (FloatRect x y w h) [bounds c0, bounds c1, bounds c2, bounds c3]"
    if e: "exact_split (FloatRect x y w h)"
  proof -
    have two: "valof (f32_lit 2) = 2"
      by (simp add: f32_lit_def f32_round_2 pow2_def)
    from e two have
      "valof (fdiv w (f32_lit 2)) = valof (width (FloatRect x y w h)) / 2"
      "valof (fdiv h (f32_lit 2)) = valof (height (FloatRect x y w h)) / 2"
      "valof (fadd x (fdiv w (f32_lit 2)))
         = valof (left (FloatRect x y w h)) + valof (fdiv w (f32_lit 2))"
      "valof (fadd y (fdiv h (f32_lit 2)))
         = valof (top_r (FloatRect x y w h)) + valof (fdiv h (f32_lit 2))"
      by (simp_all add: exact_split_def exact_div_def exact_add_def)
    from tiles_quadrants[OF this] show ?thesis
      by (simp add: b)
  qed
  with s b d have "\<exists>c0 c1 c2 c3.
     subdivide (new_Quadtree (FloatRect x y w h) d)
       = Inr (Quadtree (FloatRect x y w h) [c0, c1, c2, c3] d) \<and>
     bounds c0 = FloatRect x y (fdiv w (f32_lit 2)) (fdiv h (f32_lit 2)) \<and>
     bounds c1 = FloatRect (fadd x (fdiv w (f32_lit 2))) y (fdiv w (f32_lit 2)) (fdiv h (f32_lit 2)) \<and>
     bounds c2 = FloatRect x (fadd y (fdiv h (f32_lit 2))) (fdiv w (f32_lit 2)) (fdiv h (f32_lit 2)) \<and>
     bounds c3 = FloatRect (fadd x (fdiv w (f32_lit 2))) (fadd y (fdiv h (f32_lit 2)))
                   (fdiv w (f32_lit 2)) (fdiv h (f32_lit 2)) \<and>
     depth c0 = d - 1 \<and> depth c1 = d - 1 \<and> depth c2 = d - 1 \<and> depth c3 = d - 1 \<and>
     (exact_split (FloatRect x y w h) \<longrightarrow>
        tiles (FloatRect x y w h) [bounds c0, bounds c1, bounds c2, bounds c3])"
    by blast
  from this window show ?thesis by (rule conjI)
qed

theorem subdivide_four_children_witness:
  "(0::int) < 1 \<and>
   exact_split (FloatRect (f32_lit 0) (f32_lit 0) (f32_of_int 1920) (f32_of_int 1080)) \<and>
   (\<exists>c0 c1 c2 c3.
     subdivide (new_Quadtree
         (FloatRect (f32_lit 0) (f32_lit 0) (f32_of_int 1920) (f32_of_int 1080)) 1)
       = Inr (Quadtree (FloatRect (f32_lit 0) (f32_lit 0) (f32_of_int 1920) (f32_of_int 1080))
                [c0, c1, c2, c3] 1) \<and>
     bounds c0 = FloatRect (f32_lit 0) (f32_lit 0) (f32_lit 960) (f32_lit 540) \<and>
     bounds c1 = FloatRect (f32_lit 960) (f32_lit 0) (f32_lit 960) (f32_lit 540) \<and>
     bounds c2 = FloatRect (f32_lit 0) (f32_lit 540) (f32_lit 960) (f32_lit 540) \<and>
     bounds c3 = FloatRect (f32_lit 960) (f32_lit 540) (f32_lit 960) (f32_lit 540) \<and>
     depth c0 = 0 \<and> depth c1 = 0 \<and> depth c2 = 0 \<and> depth c3 = 0 \<and>
     tiles (FloatRect (f32_lit 0) (f32_lit 0) (f32_of_int 1920) (f32_of_int 1080))
       [bounds c0, bounds c1, bounds c2, bounds c3])"
proof -
  let ?R = "FloatRect (f32_lit 0) (f32_lit 0) (f32_of_int 1920) (f32_of_int 1080)"
  have r1920: "f32_round False 1920 = Finite False 15728640 (- 13)"
    by (simp add: f32_eval)
  have r1080: "f32_round False 1080 = Finite False 8847360 (- 13)"
    by (simp add: f32_eval)
  have r960: "f32_round False 960 = Finite False 15728640 (- 14)"
    by (simp add: f32_eval)
  have r540: "f32_round False 540 = Finite False 8847360 (- 14)"
    by (simp add: f32_eval)
  note ev = f32_lit_def f32_of_int_def f32_round_zero f32_round_2 r1920 r1080 r960 r540 pow2_def
  have pos: "(0::int) < 1" by simp
  note inst = subdivide_four_children[OF pos, of "f32_lit 0" "f32_lit 0" "f32_of_int 1920"
      "f32_of_int 1080" 1920 1080]
  from inst have e: "exact_split ?R" by simp
  from inst e have "\<exists>c0 c1 c2 c3.
     subdivide (new_Quadtree ?R 1) = Inr (Quadtree ?R [c0, c1, c2, c3] 1) \<and>
     bounds c0 = FloatRect (f32_lit 0) (f32_lit 0) (fdiv (f32_of_int 1920) (f32_lit 2))
        (fdiv (f32_of_int 1080) (f32_lit 2)) \<and>
     bounds c1 = FloatRect (fadd (f32_lit 0) (fdiv (f32_of_int 1920) (f32_lit 2))) (f32_lit 0)
        (fdiv (f32_of_int 1920) (f32_lit 2)) (fdiv (f32_of_int 1080) (f32_lit 2)) \<and>
     bounds c2 = FloatRect (f32_lit 0) (fadd (f32_lit 0) (fdiv (f32_of_int 1080) (f32_lit 2)))
        (fdiv (f32_of_int 1920) (f32_lit 2)) (fdiv (f32_of_int 1080) (f32_lit 2)) \<and>
     bounds c3 = FloatRect (fadd (f32_lit 0) (fdiv (f32_of_int 1920) (f32_lit 2)))
        (fadd (f32_lit 0) (fdiv (f32_of_int 1080) (f32_lit 2)))
        (fdiv (f32_of_int 1920) (f32_lit 2)) (fdiv (f32_of_int 1080) (f32_lit 2)) \<and>
     depth c0 = 0 \<and> depth c1 = 0 \<and> depth c2 = 0 \<and> depth c3 = 0 \<and>
     tiles ?R [bounds c0, bounds c1, bounds c2, bounds c3]"
    by simp
  moreover have "fdiv (f32_of_int 1920) (f32_lit 2) = f32_lit 960"
    "fdiv (f32_of_int 1080) (f32_lit 2) = f32_lit 540"
    "fadd (f32_lit 0) (f32_lit 960) = f32_lit 960"
    "fadd (f32_lit 0) (f32_lit 540) = f32_lit 540"
    by (simp_all add: ev)
  ultimately show ?thesis
    using pos e by (simp only:)
qed

text \<open>
  C1 as stated fails where a sum is rounded: for the rectangle \<open>(16777216, 0, 2, 2)\<close> the
  float sum \<open>16777216 + 1\<close> is \<open>16777216\<close>, so the right children have the rectangles of
  the left ones: the children overlap and leave the right half of the region uncovered.
\<close>

theorem subdivide_tiling_counterexample:
  "subdivide (new_Quadtree (FloatRect (f32_lit 16777216) (f32_lit 0) (f32_lit 2) (f32_lit 2)) 1)
     = Inr (Quadtree (FloatRect (f32_lit 16777216) (f32_lit 0) (f32_lit 2) (f32_lit 2))
         [Quadtree (FloatRect (f32_lit 16777216) (f32_lit 0) (f32_lit 1) (f32_lit 1)) [] 0,
          Quadtree (FloatRect (f32_lit 16777216) (f32_lit 0) (f32_lit 1) (f32_lit 1)) [] 0,
          Quadtree (FloatRect (f32_lit 16777216) (f32_lit 1) (f32_lit 1) (f32_lit 1)) [] 0,
          Quadtree (FloatRect (f32_lit 16777216) (f32_lit 1) (f32_lit 1) (f32_lit 1)) [] 0] 1) \<and>
   \<not> tiles (FloatRect (f32_lit 16777216) (f32_lit 0) (f32_lit 2) (f32_lit 2))
       [FloatRect (f32_lit 16777216) (f32_lit 0) (f32_lit 1) (f32_lit 1),
        FloatRect (f32_lit 16777216) (f32_lit 0) (f32_lit 1) (f32_lit 1),
        FloatRect (f32_lit 16777216) (f32_lit 1) (f32_lit 1) (f32_lit 1),
        FloatRect (f32_lit 16777216) (f32_lit 1) (f32_lit 1) (f32_lit 1)]"
proof -
  have r1: "f32_round False 1 = Finite False 8388608 (- 23)"
    by (simp add: f32_eval)
  have rx: "f32_round False 16777216 = Finite False 8388608 1"
    by (simp add: f32_eval)
  have rx1: "f32_round False 16777217 = Finite False 8388608 1"
    by (simp add: f32_eval)
  note ev = f32_lit_def f32_round_zero f32_round_2 r1 rx rx1 pow2_def Let_def
  have s: "subdivide (new_Quadtree (FloatRect (f32_lit 16777216) (f32_lit 0) (f32_lit 2) (f32_lit 2)) 1)
     = Inr (Quadtree (FloatRect (f32_lit 16777216) (f32_lit 0) (f32_lit 2) (f32_lit 2))
         [Quadtree (FloatRect (f32_lit 16777216) (f32_lit 0) (f32_lit 1) (f32_lit 1)) [] 0,
          Quadtree (FloatRect (f32_lit 16777216) (f32_lit 0) (f32_lit 1) (f32_lit 1)) [] 0,
          Quadtree (FloatRect (f32_lit 16777216) (f32_lit 1) (f32_lit 1) (f32_lit 1)) [] 0,
          Quadtree (FloatRect (f32_lit 16777216) (f32_lit 1) (f32_lit 1) (f32_lit 1)) [] 0] 1)"
    by (simp add: subdivide.simps subdivide_loop.simps new_Quadtree_def calculateChildRect_def ev)
  have "(16777216, 0) \<in> rect_pts (FloatRect (f32_lit 16777216) (f32_lit 0) (f32_lit 1) (f32_lit 1))"
    by (simp add: rect_pts_def ev)
  then have "\<not> pairwise_disjoint (map rect_pts
       [FloatRect (f32_lit 16777216) (f32_lit 0) (f32_lit 1) (f32_lit 1),
        FloatRect (f32_lit 16777216) (f32_lit 0) (f32_lit 1) (f32_lit 1),
        FloatRect (f32_lit 16777216) (f32_lit 1) (f32_lit 1) (f32_lit 1),
        FloatRect (f32_lit 16777216) (f32_lit 1) (f32_lit 1) (f32_lit 1)])"
    by auto
  then have "\<not> tiles (FloatRect (f32_lit 16777216) (f32_lit 0) (f32_lit 2) (f32_lit 2))
       [FloatRect (f32_lit 16777216) (f32_lit 0) (f32_lit 1) (f32_lit 1),
        FloatRect (f32_lit 16777216) (f32_lit 0) (f32_lit 1) (f32_lit 1),
        FloatRect (f32_lit 16777216) (f32_lit 1) (f32_lit 1) (f32_lit 1),
        FloatRect (f32_lit 16777216) (f32_lit 1) (f32_lit 1) (f32_lit 1)]"
    by (simp add: tiles_def)
  with s show ?thesis by blast
qed

lemma three_dvd_pow4: "3 dvd (4::nat) ^ k - 1"
proof (induction k)
  case 0
  then show ?case by simp
next
  case (Suc k)
  then obtain j where j: "(4::nat) ^ k - 1 = 3 * j"
    unfolding dvd_def by blast
  have "(4::nat) ^ k \<ge> 1" by simp
  with j have "(4::nat) ^ k = 3 * j + 1" by linarith
  then have "(4::nat) ^ Suc k - 1 = 3 * (4 * j + 1)" by simp
  then show ?case by simp
qed

lemma count_closed_form:
  "(4 ^ (Suc n + 1) - 1) div 3 = Suc (4 * ((4 ^ (n + 1) - 1) div (3::nat)))"
proof -
  from three_dvd_pow4[of "n + 1"] obtain j where j: "(4::nat) ^ (n + 1) - 1 = 3 * j"
    unfolding dvd_def by blast
  have "(4::nat) ^ (n + 1) \<ge> 1" by simp
  with j have e: "(4::nat) ^ (n + 1) = 3 * j + 1" by linarith
  have "(4::nat) ^ (Suc n + 1) = 4 * 4 ^ (n + 1)" by simp
  with e have "(4::nat) ^ (Suc n + 1) - 1 = 3 * (4 * j + 1)" by simp
  then have "((4::nat) ^ (Suc n + 1) - 1) div 3 = 4 * j + 1"
    by simp
  moreover from j have "((4::nat) ^ (n + 1) - 1) div 3 = j"
    by simp
  ultimately show ?thesis by simp
qed

lemma subdivide_fresh_count:
  "\<exists>t. subdivide (new_Quadtree r (int n)) = Inr t \<and>
       countNodes t = (4 ^ (n + 1) - 1) div 3 \<and> leavesAtDepth0 t"
proof (induction n arbitrary: r)
  case 0
  have "subdivide (new_Quadtree r 0) = Inr (new_Quadtree r 0)"
    by (rule subdivide_noop) (simp add: new_Quadtree_def)
  then show ?case by (simp add: new_Quadtree_def)
next
  case (Suc n)
  let ?q = "new_Quadtree r (int (Suc n))"
  have "0 < depth ?q" and "children ?q = []"
    by (simp_all add: new_Quadtree_def)
  from subdivide_unroll[OF this]
  obtain r0 r1 r2 r3 c0 c1 c2 c3 where
    c: "subdivide (new_Quadtree r0 (depth ?q - 1)) = Inr c0"
       "subdivide (new_Quadtree r1 (depth ?q - 1)) = Inr c1"
       "subdivide (new_Quadtree r2 (depth ?q - 1)) = Inr c2"
       "subdivide (new_Quadtree r3 (depth ?q - 1)) = Inr c3"
    and s: "subdivide ?q = Inr (Quadtree (bounds ?q) [c0, c1, c2, c3] (depth ?q))"
    by blast
  have d: "depth ?q - 1 = int n" by (simp add: new_Quadtree_def)
  from c Suc.IH[of r0] Suc.IH[of r1] Suc.IH[of r2] Suc.IH[of r3]
  have k: "countNodes c0 = (4 ^ (n + 1) - 1) div 3 \<and> leavesAtDepth0 c0"
    "countNodes c1 = (4 ^ (n + 1) - 1) div 3 \<and> leavesAtDepth0 c1"
    "countNodes c2 = (4 ^ (n + 1) - 1) div 3 \<and> leavesAtDepth0 c2"
    "countNodes c3 = (4 ^ (n + 1) - 1) div 3 \<and> leavesAtDepth0 c3"
    unfolding d by auto
  have "countNodes (Quadtree (bounds ?q) [c0, c1, c2, c3] (depth ?q))
      = Suc (4 * ((4 ^ (n + 1) - 1) div 3))"
    using k by simp
  moreover have "leavesAtDepth0 (Quadtree (bounds ?q) [c0, c1, c2, c3] (depth ?q))"
    using k by simp
  ultimately show ?case
    using s count_closed_form[of n] by simp
qed

text \<open>
  C3. A region created with initial depth \<open>d \<ge> 0\<close>: one call of \<open>subdivide\<close> returns the
  whole tree, of \<open>(4^(d+1) - 1) / 3\<close> nodes, the region included, and every leaf of it has
  depth 0.
\<close>

theorem subdivide_node_count:
  assumes "0 \<le> d"
  shows "\<exists>t. subdivide (new_Quadtree r d) = Inr t \<and>
     countNodes t = (4 ^ (nat d + 1) - 1) div 3 \<and> leavesAtDepth0 t"
  using subdivide_fresh_count[of r "nat d"] assms by simp

theorem subdivide_node_count_witness:
  "(0::int) \<le> 3 \<and>
   (\<exists>t. subdivide (new_Quadtree (FloatRect (f32_lit 0) (f32_lit 0) (f32_lit 1920) (f32_lit 1080)) 3)
          = Inr t \<and> countNodes t = 85 \<and> leavesAtDepth0 t)"
proof -
  have d: "(0::int) \<le> 3" by simp
  have "(4 ^ (nat 3 + 1) - 1) div 3 = (85::nat)" by simp
  with subdivide_node_count[OF d,
      of "FloatRect (f32_lit 0) (f32_lit 0) (f32_lit 1920) (f32_lit 1080)"] d
  show ?thesis by simp
qed

text \<open>
  C2. \<open>subdivide\<close> is idempotent: a second call on the region the first call returned
  changes nothing, so it adds no child; and a call on a region that has children, or whose
  depth is at most 0, changes nothing.
\<close>

theorem subdivide_idempotent:
  "\<exists>q'. subdivide q = Inr q' \<and> subdivide q' = Inr q' \<and>
        (children q \<noteq> [] \<or> depth q \<le> 0 \<longrightarrow> q' = q)"
proof (cases "children q \<noteq> [] \<or> depth q \<le> 0")
  case True
  then have "subdivide q = Inr q" by (rule subdivide_noop)
  then show ?thesis by simp
next
  case False
  then have "0 < depth q" and "children q = []" by simp_all
  from subdivide_unroll[OF this]
  obtain c0 c1 c2 c3 where
    s: "subdivide q = Inr (Quadtree (bounds q) [c0, c1, c2, c3] (depth q))"
    by blast
  have "subdivide (Quadtree (bounds q) [c0, c1, c2, c3] (depth q))
      = Inr (Quadtree (bounds q) [c0, c1, c2, c3] (depth q))"
    by (rule subdivide_noop) simp
  with s False show ?thesis by simp
qed

theorem subdivide_idempotent_witness:
  "subdivide (Quadtree (FloatRect (f32_lit 0) (f32_lit 0) (f32_lit 8) (f32_lit 8))
       [new_Quadtree (FloatRect (f32_lit 0) (f32_lit 0) (f32_lit 4) (f32_lit 4)) 0] 1)
     = Inr (Quadtree (FloatRect (f32_lit 0) (f32_lit 0) (f32_lit 8) (f32_lit 8))
       [new_Quadtree (FloatRect (f32_lit 0) (f32_lit 0) (f32_lit 4) (f32_lit 4)) 0] 1) \<and>
   (\<exists>q'. subdivide (new_Quadtree (FloatRect (f32_lit 0) (f32_lit 0) (f32_lit 8) (f32_lit 8)) 1)
            = Inr q' \<and> subdivide q' = Inr q' \<and> length (children q') = 4)"
proof -
  let ?r = "FloatRect (f32_lit 0) (f32_lit 0) (f32_lit 8) (f32_lit 8)"
  let ?c = "new_Quadtree (FloatRect (f32_lit 0) (f32_lit 0) (f32_lit 4) (f32_lit 4)) 0"
  from subdivide_idempotent[of "Quadtree ?r [?c] 1"]
  have a: "subdivide (Quadtree ?r [?c] 1) = Inr (Quadtree ?r [?c] 1)" by auto
  from subdivide_idempotent[of "new_Quadtree ?r 1"]
  obtain q' where q': "subdivide (new_Quadtree ?r 1) = Inr q'" "subdivide q' = Inr q'"
    by blast
  have "0 < depth (new_Quadtree ?r 1)" and "children (new_Quadtree ?r 1) = []"
    by (simp_all add: new_Quadtree_def)
  from subdivide_unroll[OF this] q'(1) have "length (children q') = 4" by auto
  with a q' show ?thesis by blast
qed

text \<open>
  C7. \<open>calculateChildRect\<close> returns a rectangle for each index from 0 to 3 and throws
  \<open>std::invalid_argument\<close>, the only error of the program, for every other index;
  \<open>subdivide\<close> never ends in that error, since it passes the indices 0 to 3 only.
\<close>

theorem calculateChildRect_index_range:
  "(0 \<le> i \<and> i \<le> 3 \<longrightarrow> (\<exists>r. calculateChildRect q i = Inr r)) \<and>
   (i < 0 \<or> 3 < i \<longrightarrow> calculateChildRect q i = Inl (invalid_argument ''Invalid childIndex'')) \<and>
   (\<exists>q'. subdivide q = Inr q')"
proof -
  have "\<exists>r. calculateChildRect q i = Inr r" if "0 \<le> i \<and> i \<le> 3"
    using that calculateChildRect_in_range[of i q] by simp
  moreover have "calculateChildRect q i = Inl (invalid_argument ''Invalid childIndex'')"
    if "i < 0 \<or> 3 < i"
    using that by (auto simp: calculateChildRect_def Let_def)
  ultimately show ?thesis
    using subdivide_returns[of q] by blast
qed

theorem calculateChildRect_index_range_witness:
  "(\<exists>r. calculateChildRect (new_Quadtree (FloatRect (f32_lit 0) (f32_lit 0) (f32_lit 8) (f32_lit 8)) 3) 2
       = Inr r) \<and>
   calculateChildRect (new_Quadtree (FloatRect (f32_lit 0) (f32_lit 0) (f32_lit 8) (f32_lit 8)) 3) 4
       = Inl (invalid_argument ''Invalid childIndex'') \<and>
   calculateChildRect (new_Quadtree (FloatRect (f32_lit 0) (f32_lit 0) (f32_lit 8) (f32_lit 8)) 3) (- 1)
       = Inl (invalid_argument ''Invalid childIndex'') \<and>
   (\<exists>q'. subdivide (new_Quadtree (FloatRect (f32_lit 0) (f32_lit 0) (f32_lit 8) (f32_lit 8)) 3)
       = Inr q')"
  using calculateChildRect_index_range
      [of 2 "new_Quadtree (FloatRect (f32_lit 0) (f32_lit 0) (f32_lit 8) (f32_lit 8)) 3"]
    calculateChildRect_index_range
      [of 4 "new_Quadtree (FloatRect (f32_lit 0) (f32_lit 0) (f32_lit 8) (f32_lit 8)) 3"]
    calculateChildRect_index_range
      [of "- 1" "new_Quadtree (FloatRect (f32_lit 0) (f32_lit 0) (f32_lit 8) (f32_lit 8)) 3"]
  by simp

text \<open>
  C10. \<open>subdivide\<close> changes no field of the region but its list of children: the region it
  returns has the rectangle and the depth of the region it was called on; and when the
  region had children already, the nodes of the tree before the call, the region returned
  is the same tree, so every one of those nodes keeps its rectangle and its depth too.
\<close>

theorem subdivide_frame:
  "\<exists>q'. subdivide q = Inr q' \<and> bounds q' = bounds q \<and> depth q' = depth q \<and>
        (children q \<noteq> [] \<longrightarrow> q' = q)"
proof -
  from subdivide_returns_aux(1)[of q]
  obtain q' where q': "subdivide q = Inr q'" "bounds q' = bounds q" "depth q' = depth q"
    by blast
  have "q' = q" if "children q \<noteq> []"
    using that q'(1) subdivide_noop[of q] by simp
  with q' show ?thesis by blast
qed

theorem subdivide_frame_witness:
  "(\<exists>q'. subdivide (new_Quadtree (FloatRect (f32_lit 0) (f32_lit 0) (f32_lit 8) (f32_lit 8)) 2)
       = Inr q' \<and>
     bounds q' = FloatRect (f32_lit 0) (f32_lit 0) (f32_lit 8) (f32_lit 8) \<and> depth q' = 2) \<and>
   subdivide (Quadtree (FloatRect (f32_lit 0) (f32_lit 0) (f32_lit 8) (f32_lit 8))
       [new_Quadtree (FloatRect (f32_lit 0) (f32_lit 0) (f32_lit 4) (f32_lit 4)) 0] 1)
     = Inr (Quadtree (FloatRect (f32_lit 0) (f32_lit 0) (f32_lit 8) (f32_lit 8))
       [new_Quadtree (FloatRect (f32_lit 0) (f32_lit 0) (f32_lit 4) (f32_lit 4)) 0] 1)"
proof -
  let ?r = "FloatRect (f32_lit 0) (f32_lit 0) (f32_lit 8) (f32_lit 8)"
  let ?c = "new_Quadtree (FloatRect (f32_lit 0) (f32_lit 0) (f32_lit 4) (f32_lit 4)) 0"
  from subdivide_frame[of "new_Quadtree ?r 2"]
  have a: "\<exists>q'. subdivide (new_Quadtree ?r 2) = Inr q' \<and> bounds q' = ?r \<and> depth q' = 2"
    by (simp add: new_Quadtree_def)
  from subdivide_frame[of "Quadtree ?r [?c] 1"]
  have b: "subdivide (Quadtree ?r [?c] 1) = Inr (Quadtree ?r [?c] 1)"
    by auto
  from a b show ?thesis by blast
qed

section \<open>The claims about the camera\<close>

lemma fle_finite: "is_finite a \<Longrightarrow> is_finite b \<Longrightarrow> fle a b = (valof a \<le> valof b)"
  by (cases a; cases b) simp_all

lemma flt_finite: "is_finite a \<Longrightarrow> is_finite b \<Longrightarrow> flt a b = (valof a < valof b)"
  by (cases a; cases b) simp_all

lemma feq_finite: "is_finite a \<Longrightarrow> is_finite b \<Longrightarrow> feq a b = (valof a = valof b)"
  by (cases a; cases b) simp_all

lemma fle_fmax_left: "is_finite a \<Longrightarrow> fle a (fmax a b)"
  by (simp add: fmax_def flt_imp_fle fle_finite)

text \<open>
  C4. \<open>updateZoom\<close> (the spec's \<open>zoom\<close>) sets the zoom factor to
  \<open>max(0.1f, zoomFactor + delta * 0.05f)\<close> and changes nothing else. The new zoom factor is
  never below \<open>0.1f\<close>, a float that is not below the real \<open>0.1\<close>, whatever the old one
  (NaN and the infinities included) and whatever the delta; from zoom factor \<open>1.0f\<close> the
  delta \<open>-1000\<close> gives \<open>0.1f\<close>; and there is no ceiling: a sum above \<open>0.1f\<close> is the new
  zoom factor as it is (from \<open>1.0f\<close> the delta \<open>1000\<close> gives \<open>51.0f\<close>).
\<close>

theorem updateZoom_floor:
  "zoomFactor (updateZoom c d)
     = fmax (f32_lit (1 / 10)) (fadd (zoomFactor c) (fmul (f32_of_int d) (f32_lit (5 / 100)))) \<and>
   Camera.position (updateZoom c d) = Camera.position c \<and>
   scrollSpeed (updateZoom c d) = scrollSpeed c \<and>
   fle (f32_lit (1 / 10)) (zoomFactor (updateZoom c d)) \<and>
   \<not> flt (zoomFactor (updateZoom c d)) (f32_lit (1 / 10)) \<and>
   1 / 10 \<le> valof (f32_lit (1 / 10)) \<and>
   zoomFactor (updateZoom (c\<lparr>zoomFactor := f32_lit 1\<rparr>) (- 1000)) = f32_lit (1 / 10) \<and>
   zoomFactor (updateZoom (c\<lparr>zoomFactor := f32_lit 1\<rparr>) 1000) = f32_lit 51 \<and>
   (flt (f32_lit (1 / 10)) (fadd (zoomFactor c) (fmul (f32_of_int d) (f32_lit (5 / 100)))) \<longrightarrow>
      zoomFactor (updateZoom c d)
        = fadd (zoomFactor c) (fmul (f32_of_int d) (f32_lit (5 / 100))))"
proof -
  have fin: "is_finite (f32_lit (1 / 10))"
    by (simp add: f32_lit_def f32_round_tenth)
  have le: "fle (f32_lit (1 / 10)) (zoomFactor (updateZoom c d))"
    using fin by (simp add: updateZoom_def fle_fmax_left)
  have real: "1 / 10 \<le> valof (f32_lit (1 / 10))"
    by (simp add: f32_lit_def f32_round_tenth pow2_def)
  have down: "zoomFactor (updateZoom (c\<lparr>zoomFactor := f32_lit 1\<rparr>) (- 1000)) = f32_lit (1 / 10)"
    by (simp add: updateZoom_def fmax_def f32_eval)
  have up: "zoomFactor (updateZoom (c\<lparr>zoomFactor := f32_lit 1\<rparr>) 1000) = f32_lit 51"
    by (simp add: updateZoom_def fmax_def f32_eval)
  from le real down up fle_not_flt[OF le] show ?thesis
    by (simp add: updateZoom_def fmax_def)
qed

theorem updateZoom_floor_witness:
  "flt (f32_lit (1 / 10)) (fadd (f32_lit 1) (fmul (f32_of_int 4) (f32_lit (5 / 100)))) \<and>
   zoomFactor (updateZoom
      \<lparr>Camera.position = Vector2f (f32_lit 960) (f32_lit 540), zoomFactor = f32_lit 1,
        scrollSpeed = f32_lit 5\<rparr> 4)
     = fadd (f32_lit 1) (fmul (f32_of_int 4) (f32_lit (5 / 100))) \<and>
   fadd (f32_lit 1) (fmul (f32_of_int 4) (f32_lit (5 / 100))) = Finite False 10066330 (- 23)"
proof -
  let ?c = "\<lparr>Camera.position = Vector2f (f32_lit 960) (f32_lit 540), zoomFactor = f32_lit 1,
        scrollSpeed = f32_lit 5\<rparr>"
  have v: "fadd (f32_lit 1) (fmul (f32_of_int 4) (f32_lit (5 / 100))) = Finite False 10066330 (- 23)"
    by (simp add: f32_eval)
  have h: "flt (f32_lit (1 / 10)) (fadd (f32_lit 1) (fmul (f32_of_int 4) (f32_lit (5 / 100))))"
    unfolding v by (simp add: f32_lit_def f32_round_tenth pow2_def)
  then have h': "flt (f32_lit (1 / 10))
      (fadd (zoomFactor ?c) (fmul (f32_of_int 4) (f32_lit (5 / 100))))"
    by simp
  from updateZoom_floor[of ?c 4] h'
  have "zoomFactor (updateZoom ?c 4)
      = fadd (zoomFactor ?c) (fmul (f32_of_int 4) (f32_lit (5 / 100)))"
    by blast
  then have "zoomFactor (updateZoom ?c 4)
      = fadd (f32_lit 1) (fmul (f32_of_int 4) (f32_lit (5 / 100)))"
    by simp
  with h v show ?thesis by blast
qed

lemma exact_trip_value:
  assumes "exact_trip pos z w"
  shows "is_finite (fadd (fdiv (fmul (fsub w pos) z) z) pos) \<and> is_finite w \<and>
         valof (fadd (fdiv (fmul (fsub w pos) z) z) pos) = valof w"
proof -
  from assms have s: "valof (fsub w pos) = valof w - valof pos" and fw: "is_finite w"
    by (simp_all add: exact_trip_def exact_sub_def)
  from assms have m: "valof (fmul (fsub w pos) z) = valof (fsub w pos) * valof z"
    by (simp add: exact_trip_def exact_mul_def)
  from assms have d: "valof (fdiv (fmul (fsub w pos) z) z) = valof (fmul (fsub w pos) z) / valof z"
    and z: "valof z \<noteq> 0"
    by (simp_all add: exact_trip_def exact_div_def)
  from assms have a: "valof (fadd (fdiv (fmul (fsub w pos) z) z) pos)
        = valof (fdiv (fmul (fsub w pos) z) z) + valof pos"
    and fa: "is_finite (fadd (fdiv (fmul (fsub w pos) z) z) pos)"
    by (simp_all add: exact_trip_def exact_add_def)
  from s m d a z have "valof (fadd (fdiv (fmul (fsub w pos) z) z) pos) = valof w"
    by simp
  with fa fw show ?thesis by simp
qed

text \<open>
  C8, as amended. \<open>convertWorldToView\<close> computes \<open>(point - position) * zoomFactor\<close> and
  \<open>convertViewToWorld\<close> computes \<open>point / zoomFactor + position\<close>, on each coordinate
  and in float arithmetic. Converting a point to view coordinates and back gives a point
  equal to it whenever the four operations are exact on each of its coordinates (the exact
  division has a zoom factor other than zero). They are exact for the zoom factor \<open>1.0f\<close>,
  the one the camera starts with, and integer coordinates of the point and of the camera
  that are, with their differences, below \<open>2^24\<close> in magnitude.
\<close>

theorem view_world_conversions:
  "convertWorldToView c p
     = Vector2f (fmul (fsub (vx p) (vx (Camera.position c))) (zoomFactor c))
                (fmul (fsub (vy p) (vy (Camera.position c))) (zoomFactor c)) \<and>
   convertViewToWorld c v
     = Vector2f (fadd (fdiv (vx v) (zoomFactor c)) (vx (Camera.position c)))
                (fadd (fdiv (vy v) (zoomFactor c)) (vy (Camera.position c))) \<and>
   (exact_trip (vx (Camera.position c)) (zoomFactor c) (vx p) \<and>
    exact_trip (vy (Camera.position c)) (zoomFactor c) (vy p) \<longrightarrow>
      feq (vx (convertViewToWorld c (convertWorldToView c p))) (vx p) \<and>
      feq (vy (convertViewToWorld c (convertWorldToView c p))) (vy p)) \<and>
   (\<bar>wx\<bar> < 2 ^ 24 \<and> \<bar>wy\<bar> < 2 ^ 24 \<and> \<bar>cx\<bar> < 2 ^ 24 \<and> \<bar>cy\<bar> < 2 ^ 24 \<and>
    \<bar>wx - cx\<bar> < 2 ^ 24 \<and> \<bar>wy - cy\<bar> < 2 ^ 24 \<longrightarrow>
      exact_trip (f32_of_int cx) (f32_lit 1) (f32_of_int wx) \<and>
      exact_trip (f32_of_int cy) (f32_lit 1) (f32_of_int wy))"
proof -
  have "feq (vx (convertViewToWorld c (convertWorldToView c p))) (vx p) \<and>
      feq (vy (convertViewToWorld c (convertWorldToView c p))) (vy p)"
    if x: "exact_trip (vx (Camera.position c)) (zoomFactor c) (vx p)"
      and y: "exact_trip (vy (Camera.position c)) (zoomFactor c) (vy p)"
    using exact_trip_value[OF x] exact_trip_value[OF y]
    by (simp add: convertViewToWorld_def convertWorldToView_def feq_finite)
  moreover have "exact_trip (f32_of_int cx) (f32_lit 1) (f32_of_int wx) \<and>
      exact_trip (f32_of_int cy) (f32_lit 1) (f32_of_int wy)"
    if "\<bar>wx\<bar> < 2 ^ 24 \<and> \<bar>wy\<bar> < 2 ^ 24 \<and> \<bar>cx\<bar> < 2 ^ 24 \<and> \<bar>cy\<bar> < 2 ^ 24 \<and>
      \<bar>wx - cx\<bar> < 2 ^ 24 \<and> \<bar>wy - cy\<bar> < 2 ^ 24"
    using that exact_trip_integers[of wx cx] exact_trip_integers[of wy cy] by blast
  ultimately show ?thesis
    by (simp add: convertViewToWorld_def convertWorldToView_def)
qed

theorem view_world_conversions_witness:
  "exact_trip (f32_lit 960) (f32_lit 2) (f32_lit 100) \<and>
   exact_trip (f32_lit 540) (f32_lit 2) (f32_lit 200) \<and>
   convertWorldToView
     \<lparr>Camera.position = Vector2f (f32_lit 960) (f32_lit 540), zoomFactor = f32_lit 2,
       scrollSpeed = f32_lit 5\<rparr> (Vector2f (f32_lit 100) (f32_lit 200))
     = Vector2f (f32_lit (- 1720)) (f32_lit (- 680)) \<and>
   feq (vx (convertViewToWorld
     \<lparr>Camera.position = Vector2f (f32_lit 960) (f32_lit 540), zoomFactor = f32_lit 2,
       scrollSpeed = f32_lit 5\<rparr>
     (convertWorldToView
       \<lparr>Camera.position = Vector2f (f32_lit 960) (f32_lit 540), zoomFactor = f32_lit 2,
         scrollSpeed = f32_lit 5\<rparr> (Vector2f (f32_lit 100) (f32_lit 200))))) (f32_lit 100) \<and>
   feq (vy (convertViewToWorld
     \<lparr>Camera.position = Vector2f (f32_lit 960) (f32_lit 540), zoomFactor = f32_lit 2,
       scrollSpeed = f32_lit 5\<rparr>
     (convertWorldToView
       \<lparr>Camera.position = Vector2f (f32_lit 960) (f32_lit 540), zoomFactor = f32_lit 2,
         scrollSpeed = f32_lit 5\<rparr> (Vector2f (f32_lit 100) (f32_lit 200))))) (f32_lit 200) \<and>
   exact_trip (f32_of_int 960) (f32_lit 1) (f32_of_int 100) \<and>
   exact_trip (f32_of_int 540) (f32_lit 1) (f32_of_int 200)"
proof -
  let ?c = "\<lparr>Camera.position = Vector2f (f32_lit 960) (f32_lit 540), zoomFactor = f32_lit 2,
       scrollSpeed = f32_lit 5\<rparr>"
  let ?p = "Vector2f (f32_lit 100) (f32_lit 200)"
  have x: "exact_trip (f32_lit 960) (f32_lit 2) (f32_lit 100)"
    by (simp add: exact_trip_def exact_sub_def exact_mul_def exact_div_def exact_add_def f32_eval)
  have y: "exact_trip (f32_lit 540) (f32_lit 2) (f32_lit 200)"
    by (simp add: exact_trip_def exact_sub_def exact_mul_def exact_div_def exact_add_def f32_eval)
  have w: "convertWorldToView ?c ?p = Vector2f (f32_lit (- 1720)) (f32_lit (- 680))"
    by (simp add: convertWorldToView_def f32_eval)
  note inst = view_world_conversions[of ?c ?p "Vector2f (f32_lit 0) (f32_lit 0)" 100 200 960 540]
  have h: "exact_trip (vx (Camera.position ?c)) (zoomFactor ?c) (vx ?p) \<and>
    exact_trip (vy (Camera.position ?c)) (zoomFactor ?c) (vy ?p)"
    using x y by simp
  from inst h
  have "feq (vx (convertViewToWorld ?c (convertWorldToView ?c ?p))) (vx ?p) \<and>
      feq (vy (convertViewToWorld ?c (convertWorldToView ?c ?p))) (vy ?p)"
    by blast
  then have f: "feq (vx (convertViewToWorld ?c (convertWorldToView ?c ?p))) (f32_lit 100) \<and>
      feq (vy (convertViewToWorld ?c (convertWorldToView ?c ?p))) (f32_lit 200)"
    by simp
  from inst[THEN conjunct2, THEN conjunct2, THEN conjunct2]
  have i: "exact_trip (f32_of_int 960) (f32_lit 1) (f32_of_int 100) \<and>
      exact_trip (f32_of_int 540) (f32_lit 1) (f32_of_int 200)"
    by simp
  from x y w f i show ?thesis by blast
qed

text \<open>
  C8 as stated fails where an operation is rounded: with the camera at \<open>(0, 0)\<close> and the
  zoom factor \<open>0.1f\<close>, the floor of \<open>updateZoom\<close>, the point \<open>(13, 0)\<close> goes to the view
  point \<open>(1.3000001, 0)\<close> and comes back as \<open>(13.000001, 0)\<close>.
\<close>

theorem view_world_roundtrip_counterexample:
  "flt (f32_lit 0) (f32_lit (1 / 10)) \<and>
   convertViewToWorld
     \<lparr>Camera.position = Vector2f (f32_lit 0) (f32_lit 0), zoomFactor = f32_lit (1 / 10),
       scrollSpeed = f32_lit 5\<rparr>
     (convertWorldToView
       \<lparr>Camera.position = Vector2f (f32_lit 0) (f32_lit 0), zoomFactor = f32_lit (1 / 10),
         scrollSpeed = f32_lit 5\<rparr> (Vector2f (f32_lit 13) (f32_lit 0)))
     = Vector2f (Finite False 13631489 (- 20)) (Finite False 0 (- 149)) \<and>
   f32_lit 13 = Finite False 13631488 (- 20) \<and>
   \<not> feq (vx (convertViewToWorld
     \<lparr>Camera.position = Vector2f (f32_lit 0) (f32_lit 0), zoomFactor = f32_lit (1 / 10),
       scrollSpeed = f32_lit 5\<rparr>
     (convertWorldToView
       \<lparr>Camera.position = Vector2f (f32_lit 0) (f32_lit 0), zoomFactor = f32_lit (1 / 10),
         scrollSpeed = f32_lit 5\<rparr> (Vector2f (f32_lit 13) (f32_lit 0))))) (f32_lit 13)"
proof -
  let ?c = "\<lparr>Camera.position = Vector2f (f32_lit 0) (f32_lit 0), zoomFactor = f32_lit (1 / 10),
       scrollSpeed = f32_lit 5\<rparr>"
  have z: "flt (f32_lit 0) (f32_lit (1 / 10))"
    by (simp add: f32_lit_def f32_round_zero f32_round_tenth pow2_def)
  have t: "f32_lit 13 = Finite False 13631488 (- 20)"
    by (simp add: f32_eval)
  have r: "convertViewToWorld ?c (convertWorldToView ?c (Vector2f (f32_lit 13) (f32_lit 0)))
     = Vector2f (Finite False 13631489 (- 20)) (Finite False 0 (- 149))"
    by (simp add: convertViewToWorld_def convertWorldToView_def f32_eval)
  have "\<not> feq (vx (convertViewToWorld ?c (convertWorldToView ?c (Vector2f (f32_lit 13) (f32_lit 0)))))
      (f32_lit 13)"
    by (subst r) (simp add: t pow2_def)
  with z t r show ?thesis by blast
qed

section \<open>The claims about the unit\<close>

lemma contains_squaredDistance:
  "contains u p = fle (squaredDistance u p) (fmul (radius u) (radius u))"
  by (simp add: contains_def squaredDistance_def Let_def)

lemma fmul_self_nonneg:
  assumes "is_finite r"
  shows "fle (Finite False 0 (- 149)) (fmul r r)"
proof -
  from assms obtain s m e where r: "r = Finite s m e" by (cases r) simp_all
  have "fmul r r = f32_round False (valof r * valof r)"
    by (simp add: r)
  with f32_round_nonneg[of "valof r * valof r"] show ?thesis by simp
qed

lemma contains_center:
  assumes "is_finite (fadd px r)" and "is_finite (fadd py r)"
  shows "fle (fadd (fmul (fsub (fadd px r) (fadd px r)) (fsub (fadd px r) (fadd px r)))
                   (fmul (fsub (fadd py r) (fadd py r)) (fsub (fadd py r) (fadd py r))))
             (fmul r r)"
proof -
  from assms(1) have "is_finite r" using fadd_finite by blast
  then have "fle (Finite False 0 (- 149)) (fmul r r)" by (rule fmul_self_nonneg)
  then show ?thesis
    using assms by (simp add: fsub_self f32_round_zero)
qed

lemma contains_exact:
  assumes "exact_contains u p"
  shows "contains u p \<longleftrightarrow>
     (valof (vx p) - (valof (vx (position u)) + valof (radius u)))\<^sup>2 +
     (valof (vy p) - (valof (vy (position u)) + valof (radius u)))\<^sup>2 \<le> (valof (radius u))\<^sup>2"
proof -
  let ?cx = "fadd (vx (position u)) (radius u)"
  let ?cy = "fadd (vy (position u)) (radius u)"
  let ?dx = "fsub (vx p) ?cx"
  let ?dy = "fsub (vy p) ?cy"
  from assms have c: "valof ?cx = valof (vx (position u)) + valof (radius u)"
    "valof ?cy = valof (vy (position u)) + valof (radius u)"
    by (simp_all add: exact_contains_def Let_def exact_add_def)
  from assms have d: "valof ?dx = valof (vx p) - valof ?cx" "valof ?dy = valof (vy p) - valof ?cy"
    by (simp_all add: exact_contains_def Let_def exact_sub_def)
  from assms have m: "valof (fmul ?dx ?dx) = valof ?dx * valof ?dx"
    "valof (fmul ?dy ?dy) = valof ?dy * valof ?dy"
    "valof (fmul (radius u) (radius u)) = valof (radius u) * valof (radius u)"
    and fr: "is_finite (fmul (radius u) (radius u))"
    by (simp_all add: exact_contains_def Let_def exact_mul_def)
  from assms have s: "valof (fadd (fmul ?dx ?dx) (fmul ?dy ?dy))
      = valof (fmul ?dx ?dx) + valof (fmul ?dy ?dy)"
    and fs: "is_finite (fadd (fmul ?dx ?dx) (fmul ?dy ?dy))"
    by (simp_all add: exact_contains_def Let_def exact_add_def)
  have "contains u p \<longleftrightarrow>
     valof (fadd (fmul ?dx ?dx) (fmul ?dy ?dy)) \<le> valof (fmul (radius u) (radius u))"
    using fle_finite[OF fs fr] by (simp add: contains_def Let_def)
  then show ?thesis
    by (simp add: s m d c power2_eq_square)
qed

lemma contains_integers:
  fixes px py r qx qy :: int
  assumes c: "\<bar>px\<bar> < 2 ^ 24" "\<bar>py\<bar> < 2 ^ 24" "\<bar>r\<bar> < 2 ^ 24" "\<bar>qx\<bar> < 2 ^ 24" "\<bar>qy\<bar> < 2 ^ 24"
    and s: "\<bar>px + r\<bar> < 2 ^ 24" "\<bar>py + r\<bar> < 2 ^ 24"
    and d: "(qx - (px + r))\<^sup>2 + (qy - (py + r))\<^sup>2 < 2 ^ 24" "r\<^sup>2 < 2 ^ 24"
  shows "contains (new_Unit (Vector2f (f32_of_int px) (f32_of_int py)) (f32_of_int r))
           (Vector2f (f32_of_int qx) (f32_of_int qy))
         \<longleftrightarrow> (qx - (px + r))\<^sup>2 + (qy - (py + r))\<^sup>2 \<le> r\<^sup>2"
proof -
  let ?u = "new_Unit (Vector2f (f32_of_int px) (f32_of_int py)) (f32_of_int r)"
  let ?p = "Vector2f (f32_of_int qx) (f32_of_int qy)"
  have v: "valof (f32_of_int px) = of_int px" "valof (f32_of_int py) = of_int py"
    "valof (f32_of_int r) = of_int r" "valof (f32_of_int qx) = of_int qx"
    "valof (f32_of_int qy) = of_int qy"
    using c by (simp_all add: f32_of_int_exact)
  have "contains ?u ?p \<longleftrightarrow>
     (of_int qx - (of_int px + of_int r))\<^sup>2 + (of_int qy - (of_int py + of_int r))\<^sup>2
       \<le> (of_int r :: real)\<^sup>2"
    using contains_exact[OF exact_contains_integers[OF c s d]]
    by (simp add: new_Unit_def v)
  also have "\<dots> \<longleftrightarrow>
     (of_int ((qx - (px + r))\<^sup>2 + (qy - (py + r))\<^sup>2) :: real) \<le> of_int (r\<^sup>2)"
    by simp
  also have "\<dots> \<longleftrightarrow> (qx - (px + r))\<^sup>2 + (qy - (py + r))\<^sup>2 \<le> r\<^sup>2"
    by (rule of_int_le_iff)
  finally show ?thesis .
qed

text \<open>
  C5, as amended. \<open>contains\<close> tests the point against the circle whose centre is
  \<open>position + (radius, radius)\<close>, not \<open>position\<close>: it returns true for the point
  \<open>position + (radius, radius)\<close> whenever the two sums are finite, and it returns false for
  the point \<open>position\<close> whenever the radius is above 0 and the operations of \<open>contains\<close>
  are exact at that point. They are exact, and both hold, for every position and radius with
  integer values \<open>px\<close>, \<open>py\<close>, \<open>r > 0\<close> such that \<open>px\<close>, \<open>py\<close>, \<open>px + r\<close>,
  \<open>py + r\<close> and \<open>2 * r^2\<close> are below \<open>2^24\<close> in magnitude.
\<close>

theorem contains_offset_center:
  "(is_finite (fadd (vx (position u)) (radius u)) \<and>
    is_finite (fadd (vy (position u)) (radius u)) \<longrightarrow>
      contains u (Vector2f (fadd (vx (position u)) (radius u))
                           (fadd (vy (position u)) (radius u)))) \<and>
   (flt (f32_lit 0) (radius u) \<and> exact_contains u (position u) \<longrightarrow>
      \<not> contains u (position u)) \<and>
   (\<bar>px\<bar> < 2 ^ 24 \<and> \<bar>py\<bar> < 2 ^ 24 \<and> \<bar>px + r\<bar> < 2 ^ 24 \<and> \<bar>py + r\<bar> < 2 ^ 24 \<and>
    0 < r \<and> 2 * r\<^sup>2 < 2 ^ 24 \<longrightarrow>
      contains (new_Unit (Vector2f (f32_of_int px) (f32_of_int py)) (f32_of_int r))
        (Vector2f (fadd (f32_of_int px) (f32_of_int r)) (fadd (f32_of_int py) (f32_of_int r))) \<and>
      \<not> contains (new_Unit (Vector2f (f32_of_int px) (f32_of_int py)) (f32_of_int r))
        (Vector2f (f32_of_int px) (f32_of_int py)))"
proof -
  have a: "contains w (Vector2f (fadd (vx (position w)) (radius w))
                           (fadd (vy (position w)) (radius w)))"
    if "is_finite (fadd (vx (position w)) (radius w)) \<and>
        is_finite (fadd (vy (position w)) (radius w))" for w
    using that contains_center[of "vx (position w)" "radius w" "vy (position w)"]
    by (simp add: contains_def Let_def)
  have b: "\<not> contains u (position u)"
    if h: "flt (f32_lit 0) (radius u) \<and> exact_contains u (position u)"
  proof -
    from h have "is_finite (radius u)"
      by (simp add: exact_contains_def Let_def exact_mul_def)
    with h have "0 < valof (radius u)"
      using flt_finite[of "f32_lit 0" "radius u"] by (simp add: f32_lit_def f32_round_zero)
    then have "(valof (radius u))\<^sup>2 < (valof (radius u))\<^sup>2 + (valof (radius u))\<^sup>2"
      by simp
    with h show ?thesis
      by (simp add: contains_exact)
  qed
  have c: "contains (new_Unit (Vector2f (f32_of_int px) (f32_of_int py)) (f32_of_int r))
        (Vector2f (fadd (f32_of_int px) (f32_of_int r)) (fadd (f32_of_int py) (f32_of_int r))) \<and>
      \<not> contains (new_Unit (Vector2f (f32_of_int px) (f32_of_int py)) (f32_of_int r))
        (Vector2f (f32_of_int px) (f32_of_int py))"
    if h: "\<bar>px\<bar> < 2 ^ 24 \<and> \<bar>py\<bar> < 2 ^ 24 \<and> \<bar>px + r\<bar> < 2 ^ 24 \<and> \<bar>py + r\<bar> < 2 ^ 24 \<and>
      0 < r \<and> 2 * r\<^sup>2 < 2 ^ 24"
  proof -
    let ?w = "new_Unit (Vector2f (f32_of_int px) (f32_of_int py)) (f32_of_int r)"
    have "0 \<le> r\<^sup>2" by simp
    with h have r2: "r\<^sup>2 < 2 ^ 24" by linarith
    from h have "r * 1 \<le> r * r" by (intro mult_left_mono) simp_all
    then have "r \<le> r\<^sup>2" by (simp add: power2_eq_square)
    with r2 h have r: "\<bar>r\<bar> < 2 ^ 24" by linarith
    have d: "(px - (px + r))\<^sup>2 + (py - (py + r))\<^sup>2 < 2 ^ 24"
      using h by (simp add: power2_eq_square)
    from h have p: "\<bar>px\<bar> < 2 ^ 24" "\<bar>py\<bar> < 2 ^ 24" and s: "\<bar>px + r\<bar> < 2 ^ 24" "\<bar>py + r\<bar> < 2 ^ 24"
      by simp_all
    have fr: "is_finite (f32_of_int r) \<and> valof (f32_of_int r) = of_int r"
      using r by (rule f32_of_int_exact)
    have fx: "is_finite (f32_of_int px) \<and> valof (f32_of_int px) = of_int px"
      using p(1) by (rule f32_of_int_exact)
    have fy: "is_finite (f32_of_int py) \<and> valof (f32_of_int py) = of_int py"
      using p(2) by (rule f32_of_int_exact)
    have "exact_add (f32_of_int px) (f32_of_int r)" "exact_add (f32_of_int py) (f32_of_int r)"
      using int_fadd[of "f32_of_int px" px "f32_of_int r" r]
        int_fadd[of "f32_of_int py" py "f32_of_int r" r] fx fy fr s
      by simp_all
    then have "is_finite (fadd (vx (position ?w)) (radius ?w)) \<and>
        is_finite (fadd (vy (position ?w)) (radius ?w))"
      by (simp add: exact_add_def new_Unit_def)
    from a[OF this] have one: "contains ?w
        (Vector2f (fadd (f32_of_int px) (f32_of_int r)) (fadd (f32_of_int py) (f32_of_int r)))"
      by (simp add: new_Unit_def)
    have "\<not> (px - (px + r))\<^sup>2 + (py - (py + r))\<^sup>2 \<le> r\<^sup>2"
      using h by (simp add: power2_eq_square)
    with contains_integers[OF p r p s d r2]
    have "\<not> contains ?w (Vector2f (f32_of_int px) (f32_of_int py))"
      by simp
    with one show ?thesis by simp
  qed
  from a[of u] b c show ?thesis by blast
qed

theorem contains_offset_center_witness:
  "is_finite (fadd (f32_lit 100) (f32_lit 30)) \<and>
   contains (new_Unit (Vector2f (f32_lit 100) (f32_lit 100)) (f32_lit 30))
     (Vector2f (f32_lit 130) (f32_lit 130)) \<and>
   flt (f32_lit 0) (f32_lit 30) \<and>
   exact_contains (new_Unit (Vector2f (f32_lit 100) (f32_lit 100)) (f32_lit 30))
     (Vector2f (f32_lit 100) (f32_lit 100)) \<and>
   \<not> contains (new_Unit (Vector2f (f32_lit 100) (f32_lit 100)) (f32_lit 30))
     (Vector2f (f32_lit 100) (f32_lit 100)) \<and>
   \<not> contains (new_Unit (Vector2f (f32_of_int 100) (f32_of_int 100)) (f32_of_int 30))
     (Vector2f (f32_of_int 100) (f32_of_int 100))"
proof -
  let ?u = "new_Unit (Vector2f (f32_lit 100) (f32_lit 100)) (f32_lit 30)"
  have s: "fadd (f32_lit 100) (f32_lit 30) = f32_lit 130"
    by (simp add: f32_eval)
  have f: "is_finite (fadd (f32_lit 100) (f32_lit 30))"
    unfolding s by (simp add: f32_eval)
  have z: "flt (f32_lit 0) (f32_lit 30)"
    by (simp add: f32_eval)
  have e: "exact_contains ?u (Vector2f (f32_lit 100) (f32_lit 100))"
    by (simp add: exact_contains_def new_Unit_def exact_add_def exact_sub_def exact_mul_def
        f32_eval)
  have u: "position ?u = Vector2f (f32_lit 100) (f32_lit 100)" "radius ?u = f32_lit 30"
    by (simp_all add: new_Unit_def)
  note inst = contains_offset_center[of ?u 100 100 30]
  from inst f z e
  have "contains ?u (Vector2f (fadd (f32_lit 100) (f32_lit 30)) (fadd (f32_lit 100) (f32_lit 30)))
      \<and> \<not> contains ?u (Vector2f (f32_lit 100) (f32_lit 100))"
    unfolding u by simp
  moreover from inst
  have "\<not> contains (new_Unit (Vector2f (f32_of_int 100) (f32_of_int 100)) (f32_of_int 30))
     (Vector2f (f32_of_int 100) (f32_of_int 100))"
    by simp
  ultimately show ?thesis
    using f z e unfolding s by blast
qed

text \<open>
  C5 as stated fails at both points. With position \<open>(16777216, 16777216)\<close> and radius
  \<open>1\<close> the float sum \<open>16777216 + 1\<close> is \<open>16777216\<close>, the centre is the position and
  \<open>contains(position)\<close> is true. With position \<open>(2^127, 2^127)\<close> and radius \<open>2^127\<close>
  the sums overflow to infinity, the differences are NaN, and \<open>contains\<close> is false at
  \<open>position + (radius, radius)\<close>.
\<close>

theorem contains_offset_center_counterexample:
  "flt (f32_lit 0) (radius (new_Unit (Vector2f (f32_lit 16777216) (f32_lit 16777216)) (f32_lit 1))) \<and>
   contains (new_Unit (Vector2f (f32_lit 16777216) (f32_lit 16777216)) (f32_lit 1))
     (position (new_Unit (Vector2f (f32_lit 16777216) (f32_lit 16777216)) (f32_lit 1))) \<and>
   \<not> contains (new_Unit (Vector2f (f32_lit (2 ^ 127)) (f32_lit (2 ^ 127))) (f32_lit (2 ^ 127)))
     (Vector2f (fadd (f32_lit (2 ^ 127)) (f32_lit (2 ^ 127)))
               (fadd (f32_lit (2 ^ 127)) (f32_lit (2 ^ 127))))"
proof -
  have a: "flt (f32_lit 0)
      (radius (new_Unit (Vector2f (f32_lit 16777216) (f32_lit 16777216)) (f32_lit 1)))"
    by (simp add: new_Unit_def f32_eval)
  have b: "contains (new_Unit (Vector2f (f32_lit 16777216) (f32_lit 16777216)) (f32_lit 1))
     (position (new_Unit (Vector2f (f32_lit 16777216) (f32_lit 16777216)) (f32_lit 1)))"
    by (simp add: new_Unit_def contains_def f32_eval)
  have c: "\<not> contains (new_Unit (Vector2f (f32_lit (2 ^ 127)) (f32_lit (2 ^ 127))) (f32_lit (2 ^ 127)))
     (Vector2f (fadd (f32_lit (2 ^ 127)) (f32_lit (2 ^ 127)))
               (fadd (f32_lit (2 ^ 127)) (f32_lit (2 ^ 127))))"
    by (simp add: new_Unit_def contains_def f32_eval)
  from a b c show ?thesis by blast
qed

text \<open>
  C9, as amended. The comparison of \<open>contains\<close> is \<open><=\<close>, not \<open><\<close>: \<open>contains\<close>
  returns true whenever the squared distance it computes equals the squared radius it
  computes; so it returns true for every point whose distance from the centre
  \<open>position + (radius, radius)\<close> is the radius, whenever the operations of \<open>contains\<close> are
  exact at that point. They are exact for integer coordinates and radius below \<open>2^24\<close> in
  magnitude with the squared distance and the squared radius below \<open>2^24\<close>: there
  \<open>contains\<close> is the test \<open>dx^2 + dy^2 <= r^2\<close>, the boundary included.
\<close>

theorem contains_inclusive:
  "contains u p = fle (squaredDistance u p) (fmul (radius u) (radius u)) \<and>
   (feq (squaredDistance u p) (fmul (radius u) (radius u)) \<longrightarrow> contains u p) \<and>
   (exact_contains u p \<and>
    sqrt ((valof (vx p) - (valof (vx (position u)) + valof (radius u)))\<^sup>2 +
          (valof (vy p) - (valof (vy (position u)) + valof (radius u)))\<^sup>2) = valof (radius u)
      \<longrightarrow> contains u p) \<and>
   (\<bar>px\<bar> < 2 ^ 24 \<and> \<bar>py\<bar> < 2 ^ 24 \<and> \<bar>r\<bar> < 2 ^ 24 \<and> \<bar>qx\<bar> < 2 ^ 24 \<and> \<bar>qy\<bar> < 2 ^ 24 \<and>
    \<bar>px + r\<bar> < 2 ^ 24 \<and> \<bar>py + r\<bar> < 2 ^ 24 \<and>
    (qx - (px + r))\<^sup>2 + (qy - (py + r))\<^sup>2 < 2 ^ 24 \<and> r\<^sup>2 < 2 ^ 24 \<longrightarrow>
      (contains (new_Unit (Vector2f (f32_of_int px) (f32_of_int py)) (f32_of_int r))
         (Vector2f (f32_of_int qx) (f32_of_int qy))
       \<longleftrightarrow> (qx - (px + r))\<^sup>2 + (qy - (py + r))\<^sup>2 \<le> r\<^sup>2))"
proof -
  have b: "contains u p" if "feq (squaredDistance u p) (fmul (radius u) (radius u))"
    using that feq_imp_fle by (simp add: contains_squaredDistance)
  have c: "contains u p"
    if h: "exact_contains u p \<and>
      sqrt ((valof (vx p) - (valof (vx (position u)) + valof (radius u)))\<^sup>2 +
            (valof (vy p) - (valof (vy (position u)) + valof (radius u)))\<^sup>2) = valof (radius u)"
  proof -
    let ?S = "(valof (vx p) - (valof (vx (position u)) + valof (radius u)))\<^sup>2 +
          (valof (vy p) - (valof (vy (position u)) + valof (radius u)))\<^sup>2"
    have "0 \<le> ?S" by simp
    then have "(sqrt ?S)\<^sup>2 = ?S" by (rule real_sqrt_pow2)
    with h have "?S = (valof (radius u))\<^sup>2" by simp
    with h show ?thesis by (simp add: contains_exact)
  qed
  have d: "contains (new_Unit (Vector2f (f32_of_int px) (f32_of_int py)) (f32_of_int r))
         (Vector2f (f32_of_int qx) (f32_of_int qy))
       \<longleftrightarrow> (qx - (px + r))\<^sup>2 + (qy - (py + r))\<^sup>2 \<le> r\<^sup>2"
    if "\<bar>px\<bar> < 2 ^ 24 \<and> \<bar>py\<bar> < 2 ^ 24 \<and> \<bar>r\<bar> < 2 ^ 24 \<and> \<bar>qx\<bar> < 2 ^ 24 \<and> \<bar>qy\<bar> < 2 ^ 24 \<and>
      \<bar>px + r\<bar> < 2 ^ 24 \<and> \<bar>py + r\<bar> < 2 ^ 24 \<and>
      (qx - (px + r))\<^sup>2 + (qy - (py + r))\<^sup>2 < 2 ^ 24 \<and> r\<^sup>2 < 2 ^ 24"
    using that by (intro contains_integers) simp_all
  from b c d show ?thesis
    using contains_squaredDistance[of u p] by blast
qed

theorem contains_inclusive_witness:
  "feq (squaredDistance (new_Unit (Vector2f (f32_lit 100) (f32_lit 100)) (f32_lit 30))
          (Vector2f (f32_lit 160) (f32_lit 130)))
       (fmul (f32_lit 30) (f32_lit 30)) \<and>
   exact_contains (new_Unit (Vector2f (f32_lit 100) (f32_lit 100)) (f32_lit 30))
     (Vector2f (f32_lit 160) (f32_lit 130)) \<and>
   sqrt ((valof (f32_lit 160) - (valof (f32_lit 100) + valof (f32_lit 30)))\<^sup>2 +
         (valof (f32_lit 130) - (valof (f32_lit 100) + valof (f32_lit 30)))\<^sup>2)
     = valof (f32_lit 30) \<and>
   contains (new_Unit (Vector2f (f32_lit 100) (f32_lit 100)) (f32_lit 30))
     (Vector2f (f32_lit 160) (f32_lit 130)) \<and>
   contains (new_Unit (Vector2f (f32_of_int 100) (f32_of_int 100)) (f32_of_int 30))
     (Vector2f (f32_of_int 154) (f32_of_int 148)) \<and>
   \<not> contains (new_Unit (Vector2f (f32_of_int 100) (f32_of_int 100)) (f32_of_int 30))
     (Vector2f (f32_of_int 155) (f32_of_int 148))"
proof -
  let ?u = "new_Unit (Vector2f (f32_lit 100) (f32_lit 100)) (f32_lit 30)"
  let ?p = "Vector2f (f32_lit 160) (f32_lit 130)"
  have q: "feq (squaredDistance ?u ?p) (fmul (f32_lit 30) (f32_lit 30))"
    by (simp add: squaredDistance_def new_Unit_def f32_eval)
  have e: "exact_contains ?u ?p"
    by (simp add: exact_contains_def new_Unit_def exact_add_def exact_sub_def exact_mul_def
        f32_eval)
  have v: "valof (f32_lit 160) = 160" "valof (f32_lit 130) = 130" "valof (f32_lit 100) = 100"
    "valof (f32_lit 30) = 30"
    by (simp_all add: f32_eval)
  have "sqrt ((30::real)\<^sup>2) = 30" by simp
  then have d: "sqrt ((valof (f32_lit 160) - (valof (f32_lit 100) + valof (f32_lit 30)))\<^sup>2 +
         (valof (f32_lit 130) - (valof (f32_lit 100) + valof (f32_lit 30)))\<^sup>2)
     = valof (f32_lit 30)"
    unfolding v by simp
  have r: "radius ?u = f32_lit 30"
    by (simp add: new_Unit_def)
  from q have "feq (squaredDistance ?u ?p) (fmul (radius ?u) (radius ?u))"
    unfolding r .
  with contains_inclusive[of ?u ?p] have k: "contains ?u ?p" by blast
  from contains_inclusive[of ?u ?p 100 100 30 154 148, THEN conjunct2, THEN conjunct2,
      THEN conjunct2]
  have g1: "contains (new_Unit (Vector2f (f32_of_int 100) (f32_of_int 100)) (f32_of_int 30))
     (Vector2f (f32_of_int 154) (f32_of_int 148))"
    by simp
  from contains_inclusive[of ?u ?p 100 100 30 155 148, THEN conjunct2, THEN conjunct2,
      THEN conjunct2]
  have g2: "\<not> contains (new_Unit (Vector2f (f32_of_int 100) (f32_of_int 100)) (f32_of_int 30))
     (Vector2f (f32_of_int 155) (f32_of_int 148))"
    by simp
  from q e d k g1 g2 show ?thesis by blast
qed

text \<open>
  C9 as stated fails where a square or the sum is rounded. With the centre at
  \<open>(0, 0)\<close> (position \<open>(-53365, -53365)\<close>, radius \<open>53365\<close>) the point
  \<open>(15827, 50964)\<close> is at distance \<open>53365\<close> exactly, yet the computed squared distance
  \<open>2847823360\<close> is above the computed squared radius \<open>2847823104\<close>. The sum is the
  same when one of the two products is fused with the addition and not rounded
  (the last two facts).
\<close>

theorem contains_inclusive_counterexample:
  "sqrt ((valof (f32_lit 15827) - (valof (f32_lit (- 53365)) + valof (f32_lit 53365)))\<^sup>2 +
         (valof (f32_lit 50964) - (valof (f32_lit (- 53365)) + valof (f32_lit 53365)))\<^sup>2)
     = valof (f32_lit 53365) \<and>
   squaredDistance (new_Unit (Vector2f (f32_lit (- 53365)) (f32_lit (- 53365))) (f32_lit 53365))
     (Vector2f (f32_lit 15827) (f32_lit 50964)) = f32_lit 2847823360 \<and>
   fmul (f32_lit 53365) (f32_lit 53365) = f32_lit 2847823104 \<and>
   \<not> contains (new_Unit (Vector2f (f32_lit (- 53365)) (f32_lit (- 53365))) (f32_lit 53365))
     (Vector2f (f32_lit 15827) (f32_lit 50964)) \<and>
   f32_round False (15827 * 15827 + valof (fmul (f32_lit 50964) (f32_lit 50964)))
     = f32_lit 2847823360 \<and>
   f32_round False (valof (fmul (f32_lit 15827) (f32_lit 15827)) + 50964 * 50964)
     = f32_lit 2847823360"
proof -
  let ?u = "new_Unit (Vector2f (f32_lit (- 53365)) (f32_lit (- 53365))) (f32_lit 53365)"
  let ?p = "Vector2f (f32_lit 15827) (f32_lit 50964)"
  have v: "valof (f32_lit 15827) = 15827" "valof (f32_lit 50964) = 50964"
    "valof (f32_lit (- 53365)) = - 53365" "valof (f32_lit 53365) = 53365"
    by (simp_all add: f32_eval)
  have "sqrt ((53365::real)\<^sup>2) = 53365" by simp
  then have d: "sqrt ((valof (f32_lit 15827) - (valof (f32_lit (- 53365)) + valof (f32_lit 53365)))\<^sup>2 +
         (valof (f32_lit 50964) - (valof (f32_lit (- 53365)) + valof (f32_lit 53365)))\<^sup>2)
     = valof (f32_lit 53365)"
    unfolding v by simp
  have s: "squaredDistance ?u ?p = f32_lit 2847823360"
    by (simp add: squaredDistance_def new_Unit_def f32_eval)
  have r: "fmul (f32_lit 53365) (f32_lit 53365) = f32_lit 2847823104"
    by (simp add: f32_eval)
  have "\<not> fle (f32_lit 2847823360) (f32_lit 2847823104)"
    by (simp add: f32_eval)
  then have c: "\<not> contains ?u ?p"
    using s r by (simp add: contains_squaredDistance new_Unit_def)
  have f1: "f32_round False (15827 * 15827 + valof (fmul (f32_lit 50964) (f32_lit 50964)))
     = f32_lit 2847823360"
    by (simp add: f32_eval)
  have f2: "f32_round False (valof (fmul (f32_lit 15827) (f32_lit 15827)) + 50964 * 50964)
     = f32_lit 2847823360"
    by (simp add: f32_eval)
  from d s r c f1 f2 show ?thesis by blast
qed

text \<open>
  C6. From a unit created at \<open>(100, 100)\<close> with radius \<open>30\<close>, not selected, a left
  click at \<open>(130, 130)\<close> selects it; a left click at \<open>(0, 0)\<close> after that deselects it; and a
  right click at \<open>(500, 500)\<close> on a selected unit, as the unit is after the first click, sets
  its position to \<open>(500, 500)\<close>, \<open>moveTo\<close> overwriting the position whatever it was.
\<close>

theorem click_sequence:
  "\<not> isSelected (new_Unit (Vector2f (f32_lit 100) (f32_lit 100)) (f32_lit 30)) \<and>
   isSelected (onMouseButtonPressed Left (130, 130)
     (new_Unit (Vector2f (f32_lit 100) (f32_lit 100)) (f32_lit 30))) \<and>
   \<not> isSelected (onMouseButtonPressed Left (0, 0) (onMouseButtonPressed Left (130, 130)
     (new_Unit (Vector2f (f32_lit 100) (f32_lit 100)) (f32_lit 30)))) \<and>
   position (onMouseButtonPressed Right (500, 500) (onMouseButtonPressed Left (130, 130)
     (new_Unit (Vector2f (f32_lit 100) (f32_lit 100)) (f32_lit 30))))
     = Vector2f (f32_lit 500) (f32_lit 500) \<and>
   (isSelected u \<longrightarrow>
      position (onMouseButtonPressed Right (500, 500) u) = Vector2f (f32_lit 500) (f32_lit 500)) \<and>
   moveTo u destination = u\<lparr>position := destination\<rparr>"
proof -
  let ?u0 = "new_Unit (Vector2f (f32_lit 100) (f32_lit 100)) (f32_lit 30)"
  have a: "\<not> isSelected ?u0"
    by (simp add: new_Unit_def)
  have c1: "contains ?u0 (Vector2f (f32_of_int 130) (f32_of_int 130))"
    by (simp add: contains_def new_Unit_def f32_eval)
  have u1: "onMouseButtonPressed Left (130, 130) ?u0 = ?u0\<lparr>isSelected := True\<rparr>"
    using c1 by (simp add: onMouseButtonPressed_def new_Unit_def)
  have c2: "\<not> contains (?u0\<lparr>isSelected := True\<rparr>) (Vector2f (f32_of_int 0) (f32_of_int 0))"
    by (simp add: contains_def new_Unit_def f32_eval)
  have b: "isSelected (onMouseButtonPressed Left (130, 130) ?u0)"
    unfolding u1 by simp
  have c: "\<not> isSelected (onMouseButtonPressed Left (0, 0) (onMouseButtonPressed Left (130, 130) ?u0))"
    unfolding u1 using c2 by (simp add: onMouseButtonPressed_def)
  have g: "position (onMouseButtonPressed Right (500, 500) w) = Vector2f (f32_lit 500) (f32_lit 500)"
    if "isSelected w" for w
    using that by (simp add: onMouseButtonPressed_def moveTo_def f32_of_int_def f32_lit_def)
  from g[OF b] a b c g[of u] show ?thesis
    by (simp add: moveTo_def)
qed

theorem click_sequence_witness:
  "isSelected (new_Unit (Vector2f (f32_lit 7) (f32_lit 9)) (f32_lit 30)\<lparr>isSelected := True\<rparr>) \<and>
   position (onMouseButtonPressed Right (500, 500)
      (new_Unit (Vector2f (f32_lit 7) (f32_lit 9)) (f32_lit 30)\<lparr>isSelected := True\<rparr>))
     = Vector2f (f32_lit 500) (f32_lit 500)"
  using click_sequence
    [of "new_Unit (Vector2f (f32_lit 7) (f32_lit 9)) (f32_lit 30)\<lparr>isSelected := True\<rparr>"]
  by simp

end
